theory Spec2Isabelle
  imports Complex_Main "HOL-Library.Sublist"
begin

section \<open>Texts and the Python primitives the scraper relies on\<close>

text \<open>
  A Python \<open>str\<close> is modelled as a \<open>string\<close>, one \<open>char\<close> per code point, for code
  points below 256 (the pound sign of the catalogue's prices is \<open>U+00A3\<close>). On this range
  the regular-expression class \<open>\d\<close> is exactly the ten characters \<open>0\<close> to \<open>9\<close>.
  Python integers are unbounded: \<open>int\<close>. A Python float is modelled by the rational
  number its decimal text denotes; the rounding to binary64 is not modelled.
\<close>

datatype error =
    ValueError | TypeError | KeyError | AttributeError | IndexError | OverflowError
  | RequestException

definition is_digit :: "char \<Rightarrow> bool" where
  "is_digit c = (48 \<le> (of_char c :: nat) \<and> (of_char c :: nat) \<le> 57)"

definition digit_value :: "char \<Rightarrow> nat" where
  "digit_value c = of_char c - 48"

text \<open>The number a run of decimal digits denotes (leading zeros allowed).\<close>

definition digits_value :: "string \<Rightarrow> nat" where
  "digits_value ds = foldl (\<lambda>a c. 10 * a + digit_value c) 0 ds"

text \<open>\<open>str.isspace\<close> on the code points below 256, and \<open>str.strip()\<close>.\<close>

definition is_space :: "char \<Rightarrow> bool" where
  "is_space c = ((of_char c :: nat) \<in> {9, 10, 11, 12, 13, 28, 29, 30, 31, 32, 133, 160})"

definition strip :: "string \<Rightarrow> string" where
  "strip s = rev (dropWhile is_space (rev (dropWhile is_space s)))"

text \<open>\<open>needle in text\<close> on strings.\<close>

fun contains :: "string \<Rightarrow> string \<Rightarrow> bool" where
  "contains needle [] = (needle = [])"
| "contains needle (c # cs) = (prefix needle (c # cs) \<or> contains needle cs)"

section \<open>Currency parsing (\<open>clean_data\<close>, the loop over \<open>price_columns\<close>)\<close>

text \<open>\<open>re.sub(r'[^\d.]', '', s)\<close>: every character that is neither a digit nor a point is
  removed.\<close>

definition re_sub_non_numeric :: "string \<Rightarrow> string" where
  "re_sub_non_numeric s = filter (\<lambda>c. is_digit c \<or> c = CHR ''.'') s"

text \<open>
  \<open>float(s)\<close> on the texts that reach it. After the substitution only digits and points are
  left, and on that alphabet \<open>float\<close> accepts exactly a run of digits with at most one
  point and at least one digit (\<open>"12"\<close>, \<open>"12."\<close>, \<open>".5"\<close>, \<open>"12.5"\<close>) and raises
  \<open>ValueError\<close> otherwise (\<open>""\<close>, \<open>"."\<close>, \<open>"1.2.3"\<close>). Signs, exponents, underscores,
  blanks and the words \<open>inf\<close> and \<open>nan\<close>, which \<open>float\<close> also reads, never reach it.
\<close>

definition py_float :: "string \<Rightarrow> error + rat" where
  "py_float s =
     (let ip = takeWhile is_digit s; r = dropWhile is_digit s in
      case r of
        [] \<Rightarrow> if ip = [] then Inl ValueError else Inr (of_nat (digits_value ip))
      | c # fp \<Rightarrow>
          if c = CHR ''.'' \<and> list_all is_digit fp \<and> (ip \<noteq> [] \<or> fp \<noteq> [])
          then Inr (of_nat (digits_value ip) + of_nat (digits_value fp) / 10 ^ length fp)
          else Inl ValueError)"

text \<open>
  The function applied to every cell of a price column:
  \<open>lambda x: float(re.sub(r'[^\d.]', '', str(x))) if pd.notnull(x) else 0.0\<close>.
  A cell is a text or null (\<open>None\<close>).
\<close>

definition price_lambda :: "string option \<Rightarrow> error + rat" where
  "price_lambda x = (case x of None \<Rightarrow> Inr 0 | Some s \<Rightarrow> py_float (re_sub_non_numeric s))"

section \<open>Rating mapping\<close>

text \<open>\<open>rating_map = {'One': 1, 'Two': 2, 'Three': 3, 'Four': 4, 'Five': 5}\<close>\<close>

definition rating_map :: "(string \<times> int) list" where
  "rating_map = [(''One'', 1), (''Two'', 2), (''Three'', 3), (''Four'', 4), (''Five'', 5)]"

text \<open>
  \<open>df['rating'].map(rating_map).fillna(3)\<close> on one label: a label that is not a key of the
  table becomes NaN under \<open>map\<close> and 3 under \<open>fillna\<close>. (pandas then stores the column as
  floats, so the cell reads \<open>3.0\<close>; its value is the integer 3.)
\<close>

definition map_rating :: "string \<Rightarrow> int" where
  "map_rating label = (case map_of rating_map label of None \<Rightarrow> 3 | Some n \<Rightarrow> n)"

section \<open>\<open>int\<close> on a text\<close>

text \<open>
  The blanks \<open>int\<close> skips around a number, on the code points below 256. They are fewer
  than those of \<open>str.strip\<close>: the separators \<open>U+001C\<close> to \<open>U+001F\<close> are not among them.
\<close>

definition is_int_space :: "char \<Rightarrow> bool" where
  "is_int_space c = ((of_char c :: nat) \<in> {9, 10, 11, 12, 13, 32, 133, 160})"

definition int_strip :: "string \<Rightarrow> string" where
  "int_strip s = rev (dropWhile is_int_space (rev (dropWhile is_int_space s)))"

text \<open>
  The interpreter's limit on the number of digits \<open>int\<close> reads from a decimal text
  (\<open>sys.get_int_max_str_digits()\<close>, 4300 unless configured, in CPython 3.11): beyond it
  \<open>int\<close> raises \<open>ValueError\<close>. Leading zeros count, underscores and the sign do not.
\<close>

definition int_max_str_digits :: nat where
  "int_max_str_digits = 4300"

text \<open>
  \<open>int(s)\<close> on a text: blanks around it are dropped, one sign may lead, and the digits may
  be grouped by single underscores.
\<close>

fun digit_groups :: "string \<Rightarrow> bool" where
  "digit_groups [] = False"
| "digit_groups [c] = is_digit c"
| "digit_groups (c # d # cs) =
     (is_digit c \<and> (if d = CHR ''_'' then digit_groups cs else digit_groups (d # cs)))"

definition int_literal :: "string \<Rightarrow> error + int" where
  "int_literal ds =
     (if digit_groups ds \<and> length (filter is_digit ds) \<le> int_max_str_digits
      then Inr (int (digits_value (filter (\<lambda>c. c \<noteq> CHR ''_'') ds)))
      else Inl ValueError)"

definition py_int :: "string \<Rightarrow> error + int" where
  "py_int s =
     (case int_strip s of
        [] \<Rightarrow> Inl ValueError
      | c # r \<Rightarrow>
          if c = CHR ''-'' then map_sum id uminus (int_literal r)
          else if c = CHR ''+'' then int_literal r
          else int_literal (c # r))"

section \<open>Availability parsing (\<open>scrape_books\<close>)\<close>

text \<open>
  \<open>re.search(r'\((\d+) available\)', text)\<close>. \<open>match_here\<close> tries the pattern at the start
  of its argument and returns group 1: the run of digits is greedy, and since a digit can
  never stand for the blank that follows the group, the only candidate is the maximal run.
  \<open>re_search\<close> scans left to right and returns the group of the leftmost match.
\<close>

definition match_here :: "string \<Rightarrow> string option" where
  "match_here s =
     (case s of
        [] \<Rightarrow> None
      | c # r \<Rightarrow>
          if c = CHR ''('' \<and> takeWhile is_digit r \<noteq> []
             \<and> prefix '' available)'' (dropWhile is_digit r)
          then Some (takeWhile is_digit r) else None)"

fun re_search :: "string \<Rightarrow> string option" where
  "re_search [] = None"
| "re_search (c # cs) =
     (case match_here (c # cs) of Some g \<Rightarrow> Some g | None \<Rightarrow> re_search cs)"

text \<open>
  \<open>availability = int(availability_match.group(1)) if availability_match
     else (1 if 'In stock' in availability_text else 0)\<close>.
  The group is a run of digits, so \<open>int\<close> raises only when the run is longer than the
  interpreter's limit.
\<close>

definition availability_of :: "string \<Rightarrow> error + int" where
  "availability_of availability_text =
     (case re_search availability_text of
        Some g \<Rightarrow> py_int g
      | None \<Rightarrow> Inr (if contains ''In stock'' availability_text then 1 else 0))"

section \<open>Integer coercion\<close>

text \<open>
  A cell of the \<open>num_reviews\<close> column: null, a text as scraped, or the integer that
  \<open>fillna(0)\<close> writes.
\<close>

datatype cell = NullCell | StrCell string | IntCell int

text \<open>
  \<open>astype(int)\<close> on one cell of an object column: \<open>int\<close> of the cell, stored in 64 bits.
\<close>

definition int64 :: "int \<Rightarrow> error + int" where
  "int64 i = (if - (2 ^ 63) \<le> i \<and> i < 2 ^ 63 then Inr i else Inl OverflowError)"

definition astype_int :: "cell \<Rightarrow> error + int" where
  "astype_int x =
     (case x of
        NullCell \<Rightarrow> Inl TypeError
      | IntCell i \<Rightarrow> int64 i
      | StrCell s \<Rightarrow> (case py_int s of Inl e \<Rightarrow> Inl e | Inr i \<Rightarrow> int64 i))"

definition fillna_cell :: "cell \<Rightarrow> int \<Rightarrow> cell" where
  "fillna_cell x d = (case x of NullCell \<Rightarrow> IntCell d | _ \<Rightarrow> x)"

section \<open>Parsed pages and the web\<close>

text \<open>
  BeautifulSoup and the network are outside the repository. A parsed page is modelled by the
  answers to the lookups \<open>scrape_books\<close> makes on it; a lookup that finds nothing answers
  \<open>None\<close>, as BeautifulSoup does.

  A listing card (\<open>article.product_pod\<close>): \<open>book.h3.a\<close> (\<open>None\<close> when the card has no
  \<open>h3\<close>, \<open>Some None\<close> when the \<open>h3\<close> has no link, else the link's attributes), the text of
  \<open>p.price_color\<close>, the class tokens of the first \<open>p\<close> (\<open>None\<close> when there is no \<open>p\<close>,
  \<open>Some None\<close> when it has no class attribute), and the text of \<open>p.instock.availability\<close>.
\<close>

type_synonym attrs = "(string \<times> string) list"

record article =
  h3_a :: "attrs option option"
  price_color :: "string option"
  p_class :: "string list option option"
  instock_availability :: "string option"

text \<open>
  A page: its listing cards (\<open>find_all('article', class_='product_pod')\<close>), the attributes
  of its \<open>meta\<close> tag named \<open>description\<close> (\<open>None\<close> when the tag is missing), and its table
  header cells in document order, each with the text of the \<open>td\<close> sibling that follows it,
  if any.
\<close>

record soup =
  product_pods :: "article list"
  meta_description :: "attrs option"
  th_rows :: "(string \<times> string option) list"

text \<open>\<open>requests.get(url)\<close> followed by the parse: the page, or the exception raised by the
  request. The status code is never inspected by the source.\<close>

type_synonym web = "string \<Rightarrow> error + soup"

text \<open>The run's observable actions, in program order: each call of \<open>requests.get\<close>, tagged
  with the fetch that issues it, and each \<open>time.sleep\<close>, in milliseconds.\<close>

datatype fetcher = Listing | Detail

datatype event = Request fetcher string | Sleep nat

text \<open>One row of the frame \<open>scrape_books\<close> returns; a text cell may be null in a frame that
  is handed to \<open>clean_data\<close>.\<close>

record raw_record =
  title :: "string option"
  price :: "string option"
  rating :: "string option"
  availability :: int
  upc :: "string option"
  product_type :: "string option"
  price_excl_tax :: "string option"
  price_incl_tax :: "string option"
  tax :: "string option"
  num_reviews :: cell
  description :: "string option"

text \<open>\<open>tag[key]\<close>: \<open>TypeError\<close> on \<open>None\<close>, \<open>KeyError\<close> on a missing attribute.\<close>

definition subscript :: "attrs option \<Rightarrow> string \<Rightarrow> error + string" where
  "subscript tag key =
     (case tag of
        None \<Rightarrow> Inl TypeError
      | Some as \<Rightarrow> (case map_of as key of None \<Rightarrow> Inl KeyError | Some v \<Rightarrow> Inr v))"

text \<open>\<open>book.h3.a[key]\<close>: \<open>None.a\<close> raises \<open>AttributeError\<close>.\<close>

definition h3_a_attr :: "article \<Rightarrow> string \<Rightarrow> error + string" where
  "h3_a_attr book key =
     (case h3_a book of None \<Rightarrow> Inl AttributeError | Some a \<Rightarrow> subscript a key)"

text \<open>\<open>.text\<close> of the result of a \<open>find\<close>.\<close>

definition text_of :: "string option \<Rightarrow> error + string" where
  "text_of tag = (case tag of None \<Rightarrow> Inl AttributeError | Some t \<Rightarrow> Inr t)"

text \<open>\<open>book.p['class'][1]\<close>\<close>

definition rating_token :: "article \<Rightarrow> error + string" where
  "rating_token book =
     (case p_class book of
        None \<Rightarrow> Inl TypeError
      | Some None \<Rightarrow> Inl KeyError
      | Some (Some tokens) \<Rightarrow>
          if 1 < length tokens then Inr (tokens ! 1) else Inl IndexError)"

text \<open>\<open>book_soup.find('th', string=label).find_next_sibling('td').text\<close>\<close>

definition th_value :: "soup \<Rightarrow> string \<Rightarrow> error + string" where
  "th_value book_soup label =
     (case map_of (th_rows book_soup) label of
        None \<Rightarrow> Inl AttributeError
      | Some None \<Rightarrow> Inl AttributeError
      | Some (Some t) \<Rightarrow> Inr t)"

definition base_url :: string where
  "base_url = ''http://books.toscrape.com/''"

text \<open>The decimal text of an integer, as an f-string writes the page number.\<close>

fun str_nat :: "nat \<Rightarrow> string" where
  "str_nat n =
     (if n < 10 then [''0123456789'' ! n] else str_nat (n div 10) @ [''0123456789'' ! (n mod 10)])"

definition str_int :: "int \<Rightarrow> string" where
  "str_int i = (if i < 0 then CHR ''-'' # str_nat (nat (- i)) else str_nat (nat i))"

definition page_url :: "int \<Rightarrow> string" where
  "page_url page = base_url @ ''catalogue/page-'' @ str_int page @ ''.html''"

definition book_url_of :: "string \<Rightarrow> string" where
  "book_url_of href = base_url @ ''catalogue/'' @ href"

section \<open>\<open>scrape_books\<close>\<close>

text \<open>
  The fields read from the detail page, in the order of the source: description, UPC,
  product type, the three prices and the number of reviews. The first lookup that fails
  raises.
\<close>

definition and_then :: "error + 'a \<Rightarrow> ('a \<Rightarrow> error + 'b) \<Rightarrow> error + 'b" where
  "and_then m f = (case m of Inl e \<Rightarrow> Inl e | Inr x \<Rightarrow> f x)"

definition detail_fields ::
  "soup \<Rightarrow> error + (string \<times> string \<times> string \<times> string \<times> string \<times> string \<times> string)" where
  "detail_fields book_soup =
     and_then (subscript (meta_description book_soup) ''content'') (\<lambda>content.
     and_then (th_value book_soup ''UPC'') (\<lambda>upc'.
     and_then (th_value book_soup ''Product Type'') (\<lambda>product_type'.
     and_then (th_value book_soup ''Price (excl. tax)'') (\<lambda>excl.
     and_then (th_value book_soup ''Price (incl. tax)'') (\<lambda>incl.
     and_then (th_value book_soup ''Tax'') (\<lambda>tax'.
     and_then (th_value book_soup ''Number of reviews'') (\<lambda>reviews.
       Inr (strip content, upc', product_type', excl, incl, tax', reviews))))))))"

text \<open>
  The fields read from the listing card before the detail page is requested: title, price
  text, rating token, availability (computed from the stripped availability text; \<open>int\<close>
  may raise) and the link of the detail page.
\<close>

definition listing_fields ::
  "article \<Rightarrow> error + (string \<times> string \<times> string \<times> int \<times> string)" where
  "listing_fields book =
     and_then (h3_a_attr book ''title'') (\<lambda>title'.
     and_then (text_of (price_color book)) (\<lambda>price'.
     and_then (rating_token book) (\<lambda>rating'.
     and_then (text_of (instock_availability book)) (\<lambda>text.
     and_then (availability_of (strip text)) (\<lambda>availability'.
     and_then (h3_a_attr book ''href'') (\<lambda>href.
       Inr (title', price', rating', availability', href)))))))"

text \<open>
  The body of the loop over the cards of a page: the record of one book, or the exception
  it raises, with the events it has emitted until then. There is no \<open>try\<close> in the source:
  an exception leaves the loop, and \<open>scrape_books\<close>. The sleep of half a second is the last
  statement of the body.
\<close>

definition scrape_book :: "web \<Rightarrow> article \<Rightarrow> (error + raw_record) \<times> event list" where
  "scrape_book get book =
     (case listing_fields book of
        Inl e \<Rightarrow> (Inl e, [])
      | Inr (title', price', rating', availability', href) \<Rightarrow>
          (case and_then (get (book_url_of href)) detail_fields of
             Inl e \<Rightarrow> (Inl e, [Request Detail (book_url_of href)])
           | Inr (description', upc', product_type', excl, incl, tax', reviews) \<Rightarrow>
               (Inr \<lparr>title = Some title', price = Some price', rating = Some rating',
                     availability = availability',
                     upc = Some upc', product_type = Some product_type',
                     price_excl_tax = Some excl, price_incl_tax = Some incl,
                     tax = Some tax', num_reviews = StrCell reviews,
                     description = Some description'\<rparr>,
                [Request Detail (book_url_of href), Sleep 500])))"

text \<open>The inner loop: \<open>for book in books\<close>, appending to \<open>all_books\<close>.\<close>

fun scrape_page_books ::
  "web \<Rightarrow> article list \<Rightarrow> raw_record list \<Rightarrow> (error + raw_record list) \<times> event list" where
  "scrape_page_books get [] all_books = (Inr all_books, [])"
| "scrape_page_books get (book # books) all_books =
     (case scrape_book get book of
        (Inl e, evs) \<Rightarrow> (Inl e, evs)
      | (Inr r, evs) \<Rightarrow>
          (case scrape_page_books get books (all_books @ [r]) of
             (res, evs') \<Rightarrow> (res, evs @ evs')))"

text \<open>The outer loop: \<open>for page in range(1, pages_to_scrape + 1)\<close>.\<close>

fun scrape_pages ::
  "web \<Rightarrow> int list \<Rightarrow> raw_record list \<Rightarrow> (error + raw_record list) \<times> event list" where
  "scrape_pages get [] all_books = (Inr all_books, [])"
| "scrape_pages get (page # pages) all_books =
     (case get (page_url page) of
        Inl e \<Rightarrow> (Inl e, [Request Listing (page_url page)])
      | Inr soup' \<Rightarrow>
          (case scrape_page_books get (product_pods soup') all_books of
             (Inl e, evs) \<Rightarrow> (Inl e, Request Listing (page_url page) # evs)
           | (Inr all_books', evs) \<Rightarrow>
               (case scrape_pages get pages all_books' of
                  (res, evs') \<Rightarrow> (res, Request Listing (page_url page) # evs @ evs'))))"

text \<open>
  \<open>scrape_books(pages_to_scrape)\<close>: the rows of the frame it returns, or the exception that
  ends it, and the trace of the run. A frame is modelled by the list of rows it is built
  from; the empty list is the frame \<open>pd.DataFrame([])\<close>, which has no columns.
\<close>

definition scrape_books :: "web \<Rightarrow> int \<Rightarrow> (error + raw_record list) \<times> event list" where
  "scrape_books get pages_to_scrape = scrape_pages get [1..pages_to_scrape] []"

section \<open>\<open>clean_data\<close>\<close>

text \<open>\<open>df.dropna(subset=['price', 'title', 'rating'])\<close>\<close>

definition dropna :: "raw_record list \<Rightarrow> raw_record list" where
  "dropna df = filter (\<lambda>r. price r \<noteq> None \<and> title r \<noteq> None \<and> rating r \<noteq> None) df"

text \<open>\<open>df.assign(description=df['description'].fillna('No description'),
  num_reviews=df['num_reviews'].fillna(0))\<close> on one row.\<close>

definition assign_fillna :: "raw_record \<Rightarrow> raw_record" where
  "assign_fillna r =
     r\<lparr>description := Some (case description r of None \<Rightarrow> ''No description'' | Some d \<Rightarrow> d),
       num_reviews := fillna_cell (num_reviews r) 0\<rparr>"

text \<open>\<open>df.drop_duplicates()\<close>: of rows equal in every column the first is kept.\<close>

definition drop_duplicates :: "'a list \<Rightarrow> 'a list" where
  "drop_duplicates df = rev (remdups (rev df))"

text \<open>\<open>Series.apply\<close> and \<open>Series.astype\<close> with a function that may raise: the cells are
  converted in order and the first exception ends the call.\<close>

fun apply_column :: "('a \<Rightarrow> error + 'b) \<Rightarrow> 'a list \<Rightarrow> error + 'b list" where
  "apply_column f [] = Inr []"
| "apply_column f (x # xs) =
     and_then (f x) (\<lambda>y. and_then (apply_column f xs) (\<lambda>ys. Inr (y # ys)))"

text \<open>\<open>.map(rating_map).fillna(3)\<close> on a cell: a null label stays null under \<open>map\<close>.\<close>

definition map_rating_cell :: "string option \<Rightarrow> int" where
  "map_rating_cell x = (case x of None \<Rightarrow> 3 | Some label \<Rightarrow> map_rating label)"

text \<open>A row of the cleaned frame.\<close>

record book =
  b_title :: "string option"
  b_price :: rat
  b_rating :: int
  b_availability :: int
  b_upc :: "string option"
  b_product_type :: "string option"
  b_price_excl_tax :: rat
  b_price_incl_tax :: rat
  b_tax :: rat
  b_num_reviews :: int
  b_description :: "string option"

text \<open>
  The cleaned row built from a filled row and its converted cells. \<open>astype(int)\<close> leaves the
  availability, an integer since \<open>scrape_books\<close>, as it is (its storage in 64 bits is not
  modelled); \<open>.str.strip()\<close> trims the description and leaves a null null.
\<close>

definition cleaned_row :: "raw_record \<times> rat \<times> rat \<times> rat \<times> rat \<times> int \<Rightarrow> book" where
  "cleaned_row x =
     (case x of (r, price', excl, incl, tax', reviews) \<Rightarrow>
        \<lparr>b_title = title r, b_price = price', b_rating = map_rating_cell (rating r),
         b_availability = availability r, b_upc = upc r, b_product_type = product_type r,
         b_price_excl_tax = excl, b_price_incl_tax = incl, b_tax = tax',
         b_num_reviews = reviews, b_description = map_option strip (description r)\<rparr>)"

text \<open>
  \<open>clean_data(df)\<close>, column by column as the source: on a frame without columns
  \<open>dropna(subset=...)\<close> raises \<open>KeyError\<close>; otherwise the rows are filtered, filled and
  deduplicated, the four price columns are parsed in the order of \<open>price_columns\<close>, and
  \<open>num_reviews\<close> is converted last. The result is the list of the rows of the frame
  returned. When no row is kept the list is empty and no cell was converted: what kind
  of frame that is for \<open>analyze_data\<close> is said by \<open>frame_of_cleaned\<close> below.
\<close>

definition clean_data :: "raw_record list \<Rightarrow> error + book list" where
  "clean_data df0 =
     (if df0 = [] then Inl KeyError
      else
        let df = drop_duplicates (map assign_fillna (dropna df0)) in
        and_then (apply_column price_lambda (map price df)) (\<lambda>price_col.
        and_then (apply_column price_lambda (map price_excl_tax df)) (\<lambda>excl_col.
        and_then (apply_column price_lambda (map price_incl_tax df)) (\<lambda>incl_col.
        and_then (apply_column price_lambda (map tax df)) (\<lambda>tax_col.
        and_then (apply_column astype_int (map num_reviews df)) (\<lambda>reviews_col.
          Inr (map cleaned_row
                 (zip df (zip price_col (zip excl_col (zip incl_col
                   (zip tax_col reviews_col))))))))))))"

section \<open>\<open>analyze_data\<close>\<close>

text \<open>A float statistic: NaN, or a number.\<close>

datatype pyfloat = NaN | Float rat

text \<open>\<open>Series.mean()\<close>, \<open>Series.max()\<close> and \<open>Series.min()\<close> of a column of numbers: NaN on
  an empty column.\<close>

definition series_mean :: "rat list \<Rightarrow> pyfloat" where
  "series_mean xs = (if xs = [] then NaN else Float (sum_list xs / of_nat (length xs)))"

definition series_max :: "rat list \<Rightarrow> pyfloat" where
  "series_max xs = (if xs = [] then NaN else Float (fold max (tl xs) (hd xs)))"

definition series_min :: "rat list \<Rightarrow> pyfloat" where
  "series_min xs = (if xs = [] then NaN else Float (fold min (tl xs) (hd xs)))"

text \<open>The index of \<open>value_counts().sort_index()\<close> and of \<open>groupby('rating')\<close>: the values
  that occur, ascending.\<close>

definition rating_index :: "book list \<Rightarrow> int list" where
  "rating_index df = sort (remdups (map b_rating df))"

definition value_counts_sorted :: "book list \<Rightarrow> (int \<times> nat) list" where
  "value_counts_sorted df =
     map (\<lambda>k. (k, length (filter (\<lambda>b. b_rating b = k) df))) (rating_index df)"

definition groupby_rating_price_mean :: "book list \<Rightarrow> (int \<times> pyfloat) list" where
  "groupby_rating_price_mean df =
     map (\<lambda>k. (k, series_mean (map b_price (filter (\<lambda>b. b_rating b = k) df))))
       (rating_index df)"

record analysis_results =
  average_price :: pyfloat
  max_price :: pyfloat
  min_price :: pyfloat
  total_available :: int
  rating_distribution :: "(int \<times> nat) list"
  price_by_rating :: "(int \<times> pyfloat) list"

text \<open>
  \<open>analyze_data(df)\<close> on a frame whose price column holds floats: the six entries of the
  dictionary it returns.
\<close>

definition analyze_data :: "book list \<Rightarrow> analysis_results" where
  "analyze_data df =
     \<lparr>average_price = series_mean (map b_price df),
      max_price = series_max (map b_price df),
      min_price = series_min (map b_price df),
      total_available = sum_list (map b_availability df),
      rating_distribution = value_counts_sorted df,
      price_by_rating = groupby_rating_price_mean df\<rparr>"

text \<open>
  A frame that \<open>analyze_data\<close> may be given, by the dtype of its price column.
  \<open>Converted rows\<close>: the price cells are floats, as in the frame \<open>clean_data\<close> returns when
  it keeps at least one row, and in every selection of rows of such a frame, the empty
  selection included. \<open>Unconverted\<close>: the frame without rows that \<open>clean_data\<close> returns when
  \<open>dropna\<close> leaves no row; \<open>Series.apply\<close> on a column without cells converts nothing, so
  its price column keeps the dtype of the raw texts.
\<close>

datatype frame = Converted "book list" | Unconverted

definition frame_of_cleaned :: "book list \<Rightarrow> frame" where
  "frame_of_cleaned out = (if out = [] then Unconverted else Converted out)"

text \<open>
  \<open>analyze_data\<close> on a frame of either kind. On the unconverted frame what \<open>Series.mean\<close>
  does depends on the version of pandas (NaN while the column has the object dtype,
  \<open>TypeError\<close> once it has the string dtype of pandas 3): the outcome is a parameter of the
  model, which says nothing more about it.
\<close>

definition analyze_frame ::
  "(error + analysis_results) \<Rightarrow> frame \<Rightarrow> error + analysis_results" where
  "analyze_frame unconverted df =
     (case df of Converted rows \<Rightarrow> Inr (analyze_data rows) | Unconverted \<Rightarrow> unconverted)"

section \<open>Vocabulary of the statements, and fixtures\<close>

text \<open>A text made of digits and points only, as the substitution leaves it.\<close>

definition numeric :: "string \<Rightarrow> bool" where
  "numeric s = list_all (\<lambda>c. is_digit c \<or> c = CHR ''.'') s"

text \<open>The cleaned row \<open>c\<close> is what \<open>clean_data\<close> makes of the filled row \<open>r\<close>.\<close>

definition cleaned_from :: "raw_record \<Rightarrow> book \<Rightarrow> bool" where
  "cleaned_from r c \<longleftrightarrow>
     price_lambda (price r) = Inr (b_price c)
     \<and> price_lambda (price_excl_tax r) = Inr (b_price_excl_tax c)
     \<and> price_lambda (price_incl_tax r) = Inr (b_price_incl_tax c)
     \<and> price_lambda (tax r) = Inr (b_tax c)
     \<and> astype_int (num_reviews r) = Inr (b_num_reviews c)
     \<and> b_rating c = map_rating_cell (rating r)
     \<and> b_title c = title r \<and> b_availability c = availability r
     \<and> b_upc c = upc r \<and> b_product_type c = product_type r
     \<and> b_description c = map_option strip (description r)"

text \<open>A scraped row whose rating token is not one of the five words, and its cleaned form.\<close>

definition zero_row :: raw_record where
  "zero_row =
     \<lparr>title = Some ''A Light in the Attic'', price = Some (CHR 0xA3 # ''51.77''),
      rating = Some ''Zero'', availability = 22, upc = Some ''a897fe39b1053632'',
      product_type = Some ''Books'', price_excl_tax = Some (CHR 0xA3 # ''51.77''),
      price_incl_tax = Some (CHR 0xA3 # ''51.77''), tax = Some (CHR 0xA3 # ''0.00''),
      num_reviews = StrCell ''0'', description = Some ''Poems''\<rparr>"

definition zero_book :: book where
  "zero_book =
     \<lparr>b_title = Some ''A Light in the Attic'', b_price = 5177 / 100, b_rating = 3,
      b_availability = 22, b_upc = Some ''a897fe39b1053632'',
      b_product_type = Some ''Books'', b_price_excl_tax = 5177 / 100,
      b_price_incl_tax = 5177 / 100, b_tax = 0, b_num_reviews = 0,
      b_description = Some ''Poems''\<rparr>"


text \<open>
  The pacing the source gives: a detail request that is not the last event of the trace is
  directly followed by the sleep of half a second.
\<close>

fun paced :: "event list \<Rightarrow> bool" where
  "paced (Request Detail u # e # tr) = (e = Sleep 500 \<and> paced (e # tr))"
| "paced (e # tr) = paced tr"
| "paced [] = True"

text \<open>
  The pacing in the words of the specification: when a request starts, the sleeps since the
  request before it add up to the minimum delay \<open>d\<close> at least. \<open>slept\<close> is the time slept
  since the last request, \<open>None\<close> before the first one. Only a sleep makes sure that time
  passes: the time that a request or the parsing of a page happens to take is not modelled.
\<close>

fun delay_kept :: "nat \<Rightarrow> nat option \<Rightarrow> event list \<Rightarrow> bool" where
  "delay_kept d slept [] = True"
| "delay_kept d slept (Sleep ms # tr) = delay_kept d (map_option (\<lambda>a. a + ms) slept) tr"
| "delay_kept d slept (Request k u # tr) =
     ((case slept of None \<Rightarrow> True | Some a \<Rightarrow> d \<le> a) \<and> delay_kept d (Some 0) tr)"

definition min_delay_kept :: "nat \<Rightarrow> event list \<Rightarrow> bool" where
  "min_delay_kept d tr = delay_kept d None tr"

text \<open>An event that is not a request the web answers with an exception.\<close>

definition served :: "web \<Rightarrow> event \<Rightarrow> bool" where
  "served get e = (case e of Request k u \<Rightarrow> (case get u of Inl x \<Rightarrow> False | Inr s \<Rightarrow> True)
                    | Sleep ms \<Rightarrow> True)"

text \<open>How often a URL is requested in a trace.\<close>

definition attempts :: "string \<Rightarrow> event list \<Rightarrow> nat" where
  "attempts url tr = length (filter (\<lambda>e. e = Request Listing url \<or> e = Request Detail url) tr)"

text \<open>All eleven cells of a row are non-null.\<close>

definition all_present :: "raw_record \<Rightarrow> bool" where
  "all_present r \<longleftrightarrow>
     title r \<noteq> None \<and> price r \<noteq> None \<and> rating r \<noteq> None \<and> upc r \<noteq> None
     \<and> product_type r \<noteq> None \<and> price_excl_tax r \<noteq> None \<and> price_incl_tax r \<noteq> None
     \<and> tax r \<noteq> None \<and> num_reviews r \<noteq> NullCell \<and> description r \<noteq> None"

text \<open>
  A fixture catalogue of one listing page with three cards, and three webs that serve it:
  one where every detail page is served, one where the request of the second detail page
  raises, one where the second detail page has no description tag.
\<close>

definition card :: "string \<Rightarrow> string \<Rightarrow> string \<Rightarrow> string \<Rightarrow> string \<Rightarrow> article" where
  "card t p r a h =
     \<lparr>h3_a = Some (Some [(''href'', h), (''title'', t)]), price_color = Some p,
      p_class = Some (Some [''star-rating'', r]), instock_availability = Some a\<rparr>"

definition detail_page :: "attrs option \<Rightarrow> string \<Rightarrow> soup" where
  "detail_page meta u =
     \<lparr>product_pods = [], meta_description = meta,
      th_rows = [(''UPC'', Some u), (''Product Type'', Some ''Books''),
        (''Price (excl. tax)'', Some (CHR 0xA3 # ''51.77'')),
        (''Price (incl. tax)'', Some (CHR 0xA3 # ''51.77'')),
        (''Tax'', Some (CHR 0xA3 # ''0.00'')),
        (''Availability'', Some ''In stock (22 available)''),
        (''Number of reviews'', Some ''0'')]\<rparr>"

definition described :: "string \<Rightarrow> attrs option" where
  "described d = Some [(''name'', ''description''), (''content'', d)]"

definition card_a :: article where
  "card_a = card ''A'' (CHR 0xA3 # ''51.77'') ''Three'' '' In stock '' ''a_1/index.html''"

definition card_b :: article where
  "card_b = card ''B'' (CHR 0xA3 # ''53.74'') ''One'' ''In stock'' ''b_2/index.html''"

definition card_c :: article where
  "card_c = card ''C'' (CHR 0xA3 # ''50.10'') ''Five'' ''In stock'' ''c_3/index.html''"

definition listing3 :: soup where
  "listing3 = \<lparr>product_pods = [card_a, card_b, card_c], meta_description = None, th_rows = []\<rparr>"

definition url_page1 :: string where
  "url_page1 = ''http://books.toscrape.com/catalogue/page-1.html''"

definition url_a :: string where
  "url_a = ''http://books.toscrape.com/catalogue/a_1/index.html''"

definition url_b :: string where
  "url_b = ''http://books.toscrape.com/catalogue/b_2/index.html''"

definition url_c :: string where
  "url_c = ''http://books.toscrape.com/catalogue/c_3/index.html''"

definition web_with :: "(error + soup) \<Rightarrow> web" where
  "web_with b url =
     (if url = url_page1 then Inr listing3
      else if url = url_a then Inr (detail_page (described '' about A '') ''a1'')
      else if url = url_b then b
      else if url = url_c then Inr (detail_page (described ''about C'') ''c3'')
      else Inl RequestException)"

definition web_ok :: web where
  "web_ok = web_with (Inr (detail_page (described ''about B'') ''b2''))"

definition web_one_failure :: web where
  "web_one_failure = web_with (Inl RequestException)"

definition web_no_meta :: web where
  "web_no_meta = web_with (Inr (detail_page None ''b2''))"

definition scraped :: "string \<Rightarrow> string \<Rightarrow> string \<Rightarrow> string \<Rightarrow> string \<Rightarrow> raw_record" where
  "scraped t p r u d =
     \<lparr>title = Some t, price = Some p, rating = Some r, availability = 1, upc = Some u,
      product_type = Some ''Books'', price_excl_tax = Some (CHR 0xA3 # ''51.77''),
      price_incl_tax = Some (CHR 0xA3 # ''51.77''), tax = Some (CHR 0xA3 # ''0.00''),
      num_reviews = StrCell ''0'', description = Some d\<rparr>"

definition records3 :: "raw_record list" where
  "records3 =
     [scraped ''A'' (CHR 0xA3 # ''51.77'') ''Three'' ''a1'' ''about A'',
      scraped ''B'' (CHR 0xA3 # ''53.74'') ''One'' ''b2'' ''about B'',
      scraped ''C'' (CHR 0xA3 # ''50.10'') ''Five'' ''c3'' ''about C'']"

text \<open>The cards listed on a page of the catalogue, none when the page is not served.\<close>

definition listed :: "web \<Rightarrow> int \<Rightarrow> article list" where
  "listed get page = (case get (page_url page) of Inl e \<Rightarrow> [] | Inr s \<Rightarrow> product_pods s)"

text \<open>An event that is a request, or the sleep of half a second.\<close>

definition plain :: "event \<Rightarrow> bool" where
  "plain e = (case e of Request k u \<Rightarrow> True | Sleep ms \<Rightarrow> ms = 500)"

text \<open>
  A trace agrees with the outcome of its run: after a run that returns, every request was
  served; after a run that raises \<open>e\<close>, every request but the last event was served, and
  the last event, when it is a request that was not served, is a request that raised \<open>e\<close>.
\<close>

definition settled :: "web \<Rightarrow> error + 'a \<Rightarrow> event list \<Rightarrow> bool" where
  "settled get res tr =
     (case res of
        Inr x \<Rightarrow> list_all (served get) tr
      | Inl e \<Rightarrow> list_all (served get) (butlast tr)
          \<and> (tr = [] \<or> served get (last tr) \<or> (\<exists>k u. last tr = Request k u \<and> get u = Inl e)))"

text \<open>
  The shape of the trace of a run: a sleep lasts 500 ms and directly follows a detail
  request; a detail request is directly followed by that sleep, or ends the trace; and
  what follows a listing request is a request, never a sleep.
\<close>

fun item_paced :: "event list \<Rightarrow> bool" where
  "item_paced [] = True"
| "item_paced (Sleep ms # tr) = False"
| "item_paced (Request Listing u # tr) = item_paced tr"
| "item_paced [Request Detail u] = True"
| "item_paced (Request Detail u # Sleep ms # tr) = (ms = 500 \<and> item_paced tr)"
| "item_paced (Request Detail u # Request k v # tr) = False"




section \<open>Basic facts\<close>

lemmas text_eval = is_digit_def digit_value_def digits_value_def is_space_def strip_def
  is_int_space_def int_strip_def int_max_str_digits_def
  re_sub_non_numeric_def py_float_def price_lambda_def

lemmas clean_eval = clean_data_def dropna_def assign_fillna_def fillna_cell_def
  drop_duplicates_def and_then_def cleaned_row_def map_rating_cell_def map_rating_def
  rating_map_def astype_int_def py_int_def int_literal_def int64_def

lemma and_then_Inr_iff:
  "and_then m f = Inr y \<longleftrightarrow> (\<exists>x. m = Inr x \<and> f x = Inr y)"
  by (cases m) (simp_all add: and_then_def)

lemma and_then_simps:
  "and_then (Inl e) f = Inl e" "and_then (Inr x) f = f x"
  by (simp_all add: and_then_def)

lemma takeWhile_all: "list_all P a \<Longrightarrow> takeWhile P a = a"
  by (induction a) simp_all

lemma dropWhile_all: "list_all P a \<Longrightarrow> dropWhile P a = []"
  by (induction a) simp_all

lemma clean_zero_row: "clean_data [zero_row] = Inr [zero_book]"
  by (simp add: zero_row_def zero_book_def text_eval clean_eval)

lemma zero_row_kept: "drop_duplicates (map assign_fillna (dropna [zero_row])) = [zero_row]"
  by (simp add: zero_row_def drop_duplicates_def dropna_def assign_fillna_def fillna_cell_def)

subsection \<open>\<open>clean_data\<close>, row by row\<close>

lemma apply_column_Inr_iff:
  "apply_column f xs = Inr ys \<longleftrightarrow> list_all2 (\<lambda>x y. f x = Inr y) xs ys"
proof (induction xs arbitrary: ys)
  case Nil
  then show ?case by auto
next
  case (Cons x xs)
  show ?case
    by (cases ys) (auto simp: and_then_Inr_iff Cons.IH)
qed

lemma clean_data_rowwise:
  assumes "clean_data df0 = Inr out"
  shows "list_all2 cleaned_from (drop_duplicates (map assign_fillna (dropna df0))) out"
proof -
  define df where "df = drop_duplicates (map assign_fillna (dropna df0))"
  from assms obtain ps es ics ts ns where
    ps: "list_all2 (\<lambda>x y. price_lambda x = Inr y) (map price df) ps" and
    es: "list_all2 (\<lambda>x y. price_lambda x = Inr y) (map price_excl_tax df) es" and
    ics: "list_all2 (\<lambda>x y. price_lambda x = Inr y) (map price_incl_tax df) ics" and
    ts: "list_all2 (\<lambda>x y. price_lambda x = Inr y) (map tax df) ts" and
    ns: "list_all2 (\<lambda>x y. astype_int x = Inr y) (map num_reviews df) ns" and
    out: "out = map cleaned_row (zip df (zip ps (zip es (zip ics (zip ts ns)))))"
    by (auto simp: clean_data_def Let_def and_then_Inr_iff apply_column_Inr_iff df_def
        split: if_splits)
  have len: "length ps = length df" "length es = length df" "length ics = length df"
    "length ts = length df" "length ns = length df"
    using ps es ics ts ns by (auto dest: list_all2_lengthD)
  have "length out = length df"
    by (simp add: out len)
  moreover have "cleaned_from (df ! i) (out ! i)" if "i < length df" for i
  proof -
    have "out ! i = cleaned_row (df ! i, ps ! i, es ! i, ics ! i, ts ! i, ns ! i)"
      using that by (simp add: out len)
    moreover have "price_lambda (price (df ! i)) = Inr (ps ! i)"
      using list_all2_nthD [OF ps, of i] that by simp
    moreover have "price_lambda (price_excl_tax (df ! i)) = Inr (es ! i)"
      using list_all2_nthD [OF es, of i] that by simp
    moreover have "price_lambda (price_incl_tax (df ! i)) = Inr (ics ! i)"
      using list_all2_nthD [OF ics, of i] that by simp
    moreover have "price_lambda (tax (df ! i)) = Inr (ts ! i)"
      using list_all2_nthD [OF ts, of i] that by simp
    moreover have "astype_int (num_reviews (df ! i)) = Inr (ns ! i)"
      using list_all2_nthD [OF ns, of i] that by simp
    ultimately show ?thesis
      by (simp add: cleaned_from_def cleaned_row_def)
  qed
  ultimately show ?thesis
    unfolding df_def [symmetric] by (simp add: list_all2_conv_all_nth)
qed

section \<open>Rating mapping\<close>













section \<open>Currency parsing\<close>

lemma not_digit_point [simp]: "\<not> is_digit CHR ''.''"
  by (simp add: is_digit_def)

lemma takeWhile_digits_point:
  "list_all is_digit a \<Longrightarrow> takeWhile is_digit (a @ CHR ''.'' # b) = a"
  by (induction a) simp_all

lemma dropWhile_digits_point:
  "list_all is_digit a \<Longrightarrow> dropWhile is_digit (a @ CHR ''.'' # b) = CHR ''.'' # b"
  by (induction a) simp_all

lemma py_float_integer:
  "list_all is_digit a \<Longrightarrow> a \<noteq> [] \<Longrightarrow> py_float a = Inr (of_nat (digits_value a))"
  by (simp add: py_float_def takeWhile_all dropWhile_all)

lemma py_float_decimal:
  "list_all is_digit a \<Longrightarrow> list_all is_digit b \<Longrightarrow> a \<noteq> [] \<or> b \<noteq> [] \<Longrightarrow>
   py_float (a @ CHR ''.'' # b)
     = Inr (of_nat (digits_value a) + of_nat (digits_value b) / 10 ^ length b)"
  by (simp add: py_float_def takeWhile_digits_point dropWhile_digits_point)

lemma py_float_result:
  "py_float s = Inl ValueError \<or> (\<exists>v. py_float s = Inr v \<and> 0 \<le> v)"
  by (auto simp: py_float_def Let_def split: list.splits)

text \<open>A numeric text is a run of digits, or a run of digits, a point and a numeric text.\<close>

lemma numeric_split:
  assumes "numeric s"
  shows "list_all is_digit s
    \<or> (\<exists>a b. s = a @ CHR ''.'' # b \<and> list_all is_digit a \<and> numeric b)"
  using assms
proof (induction s)
  case Nil
  then show ?case by simp
next
  case (Cons c s)
  show ?case
  proof (cases "is_digit c")
    case True
    from Cons have "numeric s" by (simp add: numeric_def)
    with Cons.IH consider "list_all is_digit s"
      | a b where "s = a @ CHR ''.'' # b" "list_all is_digit a" "numeric b" by blast
    then show ?thesis
    proof cases
      case 1
      with True show ?thesis by simp
    next
      case 2
      then have "c # s = (c # a) @ CHR ''.'' # b \<and> list_all is_digit (c # a) \<and> numeric b"
        using True by simp
      then show ?thesis by blast
    qed
  next
    case False
    with Cons.prems have "c = CHR ''.''" "numeric s" by (simp_all add: numeric_def)
    then have "c # s = [] @ CHR ''.'' # s \<and> list_all is_digit [] \<and> numeric s" by simp
    then show ?thesis by blast
  qed
qed

lemma numeric_no_point:
  "numeric b \<Longrightarrow> list_all is_digit b \<longleftrightarrow> count_list b CHR ''.'' = 0"
  by (induction b) (auto simp: numeric_def)

lemma digits_no_point: "list_all is_digit a \<Longrightarrow> count_list a CHR ''.'' = 0"
  by (induction a) auto

lemma py_float_error_iff:
  assumes "numeric s"
  shows "py_float s = Inl ValueError
    \<longleftrightarrow> \<not> (list_ex is_digit s \<and> count_list s CHR ''.'' \<le> 1)"
proof -
  from numeric_split [OF assms] consider "list_all is_digit s"
    | a b where "s = a @ CHR ''.'' # b" "list_all is_digit a" "numeric b" by blast
  then show ?thesis
  proof cases
    case 1
    then show ?thesis
      by (cases s) (auto simp: py_float_def takeWhile_all dropWhile_all digits_no_point)
  next
    case 2
    have ex: "list_ex is_digit s \<longleftrightarrow> a \<noteq> [] \<or> list_ex is_digit b"
      using 2(2) by (cases a) (simp_all add: 2(1))
    have cnt: "count_list s CHR ''.'' = Suc (count_list b CHR ''.'')"
      using 2 by (simp add: digits_no_point)
    show ?thesis
    proof (cases "list_all is_digit b")
      case True
      then have "list_ex is_digit b \<longleftrightarrow> b \<noteq> []" by (cases b) simp_all
      with True 2 ex cnt show ?thesis
        by (auto simp: py_float_def takeWhile_digits_point dropWhile_digits_point
            digits_no_point)
    next
      case False
      with 2(3) have "count_list b CHR ''.'' \<noteq> 0" by (simp add: numeric_no_point)
      with False 2 cnt show ?thesis
        by (auto simp: py_float_def takeWhile_digits_point dropWhile_digits_point)
    qed
  qed
qed

lemma numeric_re_sub: "numeric (re_sub_non_numeric s)"
  by (simp add: numeric_def re_sub_non_numeric_def list_all_iff)

lemma re_sub_idem: "re_sub_non_numeric (re_sub_non_numeric s) = re_sub_non_numeric s"
  by (simp add: re_sub_non_numeric_def)

lemma list_ex_re_sub: "list_ex is_digit (re_sub_non_numeric s) = list_ex is_digit s"
  by (induction s) (auto simp: re_sub_non_numeric_def)

lemma count_re_sub: "count_list (re_sub_non_numeric s) CHR ''.'' = count_list s CHR ''.''"
  by (induction s) (auto simp: re_sub_non_numeric_def)

lemma re_sub_digits: "list_all is_digit a \<Longrightarrow> re_sub_non_numeric a = a"
  by (induction a) (auto simp: re_sub_non_numeric_def)

lemma re_sub_append:
  "re_sub_non_numeric (a @ b) = re_sub_non_numeric a @ re_sub_non_numeric b"
  by (simp add: re_sub_non_numeric_def)

lemma price_lambda_error_iff:
  "price_lambda (Some s) = Inl ValueError
    \<longleftrightarrow> \<not> (list_ex is_digit s \<and> count_list s CHR ''.'' \<le> 1)"
  using py_float_error_iff [OF numeric_re_sub, of s]
  by (simp add: price_lambda_def list_ex_re_sub count_re_sub)

lemma price_lambda_result:
  "price_lambda x = Inl ValueError \<or> (\<exists>v. price_lambda x = Inr v \<and> 0 \<le> v)"
  using py_float_result by (cases x) (auto simp: price_lambda_def)

lemma price_lambda_integer:
  "list_all is_digit a \<Longrightarrow> a \<noteq> [] \<Longrightarrow> price_lambda (Some a) = Inr (of_nat (digits_value a))"
  by (simp add: price_lambda_def re_sub_digits py_float_integer)

lemma price_lambda_decimal:
  assumes "list_all is_digit a" "list_all is_digit b" "a \<noteq> [] \<or> b \<noteq> []"
  shows "price_lambda (Some (a @ ''.'' @ b))
     = Inr (of_nat (digits_value a) + of_nat (digits_value b) / 10 ^ length b)"
proof -
  have "re_sub_non_numeric (CHR ''.'' # b) = CHR ''.'' # re_sub_non_numeric b"
    by (simp add: re_sub_non_numeric_def)
  then have "re_sub_non_numeric (a @ ''.'' @ b) = a @ CHR ''.'' # b"
    using assms(1,2) by (simp add: re_sub_append re_sub_digits)
  then show ?thesis
    using py_float_decimal [OF assms] by (simp add: price_lambda_def)
qed

lemma price_lambda_examples:
  "price_lambda (Some ''51.77'') = Inr (5177 / 100)
   \<and> price_lambda (Some (CHR 0xA3 # ''51.77'')) = Inr (5177 / 100)
   \<and> price_lambda (Some (CHR 0xA3 # ''0.00'')) = Inr 0"
  by (simp add: text_eval)

lemma clean_data_prices:
  assumes "clean_data df = Inr out"
  shows "list_all2 (\<lambda>r c. price_lambda (price r) = Inr (b_price c)
            \<and> price_lambda (price_excl_tax r) = Inr (b_price_excl_tax c)
            \<and> price_lambda (price_incl_tax r) = Inr (b_price_incl_tax c)
            \<and> price_lambda (tax r) = Inr (b_tax c))
          (drop_duplicates (map assign_fillna (dropna df))) out"
  using clean_data_rowwise [OF assms]
  by (rule list_all2_mono) (simp add: cleaned_from_def)

text \<open>
  C1, as amended. On a cell of the price, price_excl_tax, price_incl_tax or tax column the
  parser removes every character that is neither a digit nor a point and hands the rest
  to \<open>float\<close>: the result depends on the stripped text only, so parsing an already clean
  text changes nothing. When the text has at least one digit and at most one point the
  result is the non-negative decimal written; otherwise, and so for a text without digits
  and for the empty text, \<open>float\<close> raises \<open>ValueError\<close>. Only a null cell yields 0.0.
  \<open>"51.77"\<close> and the same text behind a pound sign yield 51.77, \<open>"0.00"\<close> behind a pound
  sign yields 0.
\<close>

theorem currency_parsing:
  "price_lambda None = Inr 0
   \<and> price_lambda (Some s) = py_float (filter (\<lambda>c. is_digit c \<or> c = CHR ''.'') s)
   \<and> price_lambda (Some (re_sub_non_numeric s)) = price_lambda (Some s)
   \<and> (price_lambda (Some s) = Inl ValueError
        \<longleftrightarrow> \<not> (list_ex is_digit s \<and> count_list s CHR ''.'' \<le> 1))
   \<and> (price_lambda x = Inl ValueError \<or> (\<exists>v. price_lambda x = Inr v \<and> 0 \<le> v))
   \<and> (list_all is_digit a \<and> a \<noteq> [] \<longrightarrow> price_lambda (Some a) = Inr (of_nat (digits_value a)))
   \<and> (list_all is_digit a \<and> list_all is_digit b \<and> (a \<noteq> [] \<or> b \<noteq> []) \<longrightarrow>
        price_lambda (Some (a @ ''.'' @ b))
          = Inr (of_nat (digits_value a) + of_nat (digits_value b) / 10 ^ length b))
   \<and> price_lambda (Some ''51.77'') = Inr (5177 / 100)
   \<and> price_lambda (Some (CHR 0xA3 # ''51.77'')) = Inr (5177 / 100)
   \<and> price_lambda (Some (CHR 0xA3 # ''0.00'')) = Inr 0
   \<and> (clean_data df = Inr out \<longrightarrow>
        list_all2 (\<lambda>r c. price_lambda (price r) = Inr (b_price c)
            \<and> price_lambda (price_excl_tax r) = Inr (b_price_excl_tax c)
            \<and> price_lambda (price_incl_tax r) = Inr (b_price_incl_tax c)
            \<and> price_lambda (tax r) = Inr (b_tax c))
          (drop_duplicates (map assign_fillna (dropna df))) out)"
proof -
  have "price_lambda None = Inr 0"
    by (simp add: price_lambda_def)
  moreover have "price_lambda (Some s) = py_float (filter (\<lambda>c. is_digit c \<or> c = CHR ''.'') s)"
    by (simp add: price_lambda_def re_sub_non_numeric_def)
  moreover have "price_lambda (Some (re_sub_non_numeric s)) = price_lambda (Some s)"
    by (simp add: price_lambda_def re_sub_idem)
  ultimately show ?thesis
    using price_lambda_error_iff [of s] price_lambda_result [of x]
      price_lambda_integer [of a] price_lambda_decimal [of a b] price_lambda_examples
      clean_data_prices [of df out]
    by blast
qed

theorem currency_parsing_witness:
  "list_ex is_digit (CHR 0xA3 # ''51.77'') \<and> count_list (CHR 0xA3 # ''51.77'') CHR ''.'' \<le> 1
   \<and> price_lambda (Some (CHR 0xA3 # ''51.77'')) \<noteq> Inl ValueError
   \<and> list_all is_digit ''51'' \<and> list_all is_digit ''77''
   \<and> price_lambda (Some ''51'') = Inr 51
   \<and> price_lambda (Some (''51'' @ ''.'' @ ''77'')) = Inr (5177 / 100)
   \<and> clean_data [zero_row] = Inr [zero_book]
   \<and> price_lambda (price zero_row) = Inr (b_price zero_book)
   \<and> price_lambda (tax zero_row) = Inr (b_tax zero_book)"
proof -
  note t = currency_parsing [of "CHR 0xA3 # ''51.77''" "Some ''51''" "''51''" "''77''"
      "[zero_row]" "[zero_book]"]
  have d: "list_ex is_digit (CHR 0xA3 # ''51.77'')"
    "count_list (CHR 0xA3 # ''51.77'') CHR ''.'' \<le> 1"
    "list_all is_digit ''51''" "list_all is_digit ''77''"
    by (simp_all add: is_digit_def)
  from t d have "price_lambda (Some (CHR 0xA3 # ''51.77'')) \<noteq> Inl ValueError"
    by blast
  moreover from t d(3) have "price_lambda (Some ''51'') = Inr (of_nat (digits_value ''51''))"
    by blast
  moreover from t d(3,4) have "price_lambda (Some (''51'' @ ''.'' @ ''77''))
      = Inr (of_nat (digits_value ''51'') + of_nat (digits_value ''77'') / 10 ^ length ''77'')"
    by blast
  moreover from t clean_zero_row
  have "list_all2 (\<lambda>r c. price_lambda (price r) = Inr (b_price c)
            \<and> price_lambda (price_excl_tax r) = Inr (b_price_excl_tax c)
            \<and> price_lambda (price_incl_tax r) = Inr (b_price_incl_tax c)
            \<and> price_lambda (tax r) = Inr (b_tax c))
          (drop_duplicates (map assign_fillna (dropna [zero_row]))) [zero_book]"
    by blast
  then have "price_lambda (price zero_row) = Inr (b_price zero_book)
      \<and> price_lambda (tax zero_row) = Inr (b_tax zero_book)"
    by (simp add: zero_row_kept)
  ultimately show ?thesis
    using d clean_zero_row by (simp add: is_digit_def digits_value_def digit_value_def)
qed

text \<open>The empty text, which has no digit, does not yield 0.0: \<open>float('')\<close> raises.\<close>

theorem currency_parsing_counterexample:
  "price_lambda (Some '''') = Inl ValueError \<and> price_lambda (Some '''') \<noteq> Inr 0"
  by (simp add: text_eval)

section \<open>Integer coercion of the review count\<close>

lemma digit_not_space: "is_digit c \<Longrightarrow> \<not> is_int_space c"
  by (auto simp: is_digit_def is_int_space_def)

lemma digit_not_sign: "is_digit c \<Longrightarrow> c \<noteq> CHR ''-'' \<and> c \<noteq> CHR ''+'' \<and> c \<noteq> CHR ''_''"
  by (auto simp: is_digit_def)

lemma dropWhile_none: "list_all (\<lambda>c. \<not> P c) a \<Longrightarrow> dropWhile P a = a"
  by (cases a) simp_all

lemma int_strip_digits: "list_all is_digit ds \<Longrightarrow> int_strip ds = ds"
proof -
  assume "list_all is_digit ds"
  then have a: "list_all (\<lambda>c. \<not> is_int_space c) ds"
    by (simp add: list_all_iff digit_not_space)
  then have "list_all (\<lambda>c. \<not> is_int_space c) (rev ds)"
    by (simp add: list_all_iff)
  with a show ?thesis
    by (simp add: int_strip_def dropWhile_none)
qed

lemma digit_groups_digits: "list_all is_digit ds \<Longrightarrow> ds \<noteq> [] \<Longrightarrow> digit_groups ds"
  by (induction ds rule: digit_groups.induct) (auto dest: digit_not_sign)

lemma filter_underscore_digits:
  "list_all is_digit ds \<Longrightarrow> filter (\<lambda>c. c \<noteq> CHR ''_'') ds = ds"
  by (induction ds) (auto dest: digit_not_sign)

lemma filter_digits: "list_all is_digit ds \<Longrightarrow> filter is_digit ds = ds"
  by (induction ds) auto

lemma int_literal_digits:
  "list_all is_digit ds \<Longrightarrow> ds \<noteq> [] \<Longrightarrow>
   int_literal ds = (if length ds \<le> 4300 then Inr (int (digits_value ds)) else Inl ValueError)"
  by (simp add: int_literal_def digit_groups_digits filter_underscore_digits filter_digits
      int_max_str_digits_def)

lemma py_int_digits:
  assumes "list_all is_digit ds" "ds \<noteq> []"
  shows "py_int ds = (if length ds \<le> 4300 then Inr (int (digits_value ds)) else Inl ValueError)"
proof -
  from assms obtain c r where ds: "ds = c # r" by (cases ds) auto
  with assms(1) have "is_digit c" by simp
  then have "c \<noteq> CHR ''-''" "c \<noteq> CHR ''+''" using digit_not_sign by auto
  moreover have "int_strip (c # r) = c # r"
    using int_strip_digits [OF assms(1)] by (simp add: ds)
  ultimately have "py_int (c # r) = int_literal (c # r)"
    by (simp add: py_int_def)
  then show ?thesis
    using int_literal_digits [OF assms] by (simp add: ds)
qed

lemma digit_groups_has_digit: "digit_groups ds \<Longrightarrow> list_ex is_digit ds"
  by (induction ds rule: digit_groups.induct) auto

lemma int_literal_error: "\<not> list_ex is_digit ds \<Longrightarrow> int_literal ds = Inl ValueError"
  using digit_groups_has_digit by (auto simp: int_literal_def)

lemma set_int_strip: "set (int_strip s) \<subseteq> set s"
proof -
  have "set (int_strip s) \<subseteq> set (dropWhile is_int_space s)"
    unfolding int_strip_def using set_dropWhileD by fastforce
  also have "\<dots> \<subseteq> set s"
    using set_dropWhileD by fastforce
  finally show ?thesis .
qed

lemma py_int_no_digit:
  assumes "\<not> list_ex is_digit s"
  shows "py_int s = Inl ValueError"
proof (cases "int_strip s")
  case Nil
  then show ?thesis by (simp add: py_int_def)
next
  case (Cons c r)
  from assms set_int_strip [of s] have "\<not> list_ex is_digit (int_strip s)"
    by (auto simp: list_ex_iff)
  with Cons have n: "\<not> list_ex is_digit r" "\<not> list_ex is_digit (c # r)" by auto
  have "int_literal r = Inl ValueError" "int_literal (c # r) = Inl ValueError"
    using int_literal_error [OF n(1)] int_literal_error [OF n(2)] by blast+
  then show ?thesis
    using Cons by (simp add: py_int_def)
qed

lemma py_int_error: "py_int s = Inl e \<Longrightarrow> e = ValueError"
  by (auto simp: py_int_def int_literal_def map_sum_def split: list.splits if_splits sum.splits)






lemma astype_int_no_digit:
  "\<not> list_ex is_digit s \<Longrightarrow> astype_int (fillna_cell (StrCell s) 0) = Inl ValueError"
  by (simp add: astype_int_def fillna_cell_def py_int_no_digit)







section \<open>Availability parsing\<close>

lemma takeWhile_digits_then:
  "list_all is_digit n \<Longrightarrow> \<not> is_digit c \<Longrightarrow> takeWhile is_digit (n @ c # r) = n"
  by (induction n) simp_all

lemma dropWhile_digits_then:
  "list_all is_digit n \<Longrightarrow> \<not> is_digit c \<Longrightarrow> dropWhile is_digit (n @ c # r) = c # r"
  by (induction n) simp_all

lemma not_digit_blank: "\<not> is_digit CHR '' ''"
  by (simp add: is_digit_def)

lemma match_here_Some_iff:
  "match_here s = Some n \<longleftrightarrow>
     (\<exists>post. s = CHR ''('' # n @ '' available)'' @ post \<and> n \<noteq> [] \<and> list_all is_digit n)"
proof
  assume m: "match_here s = Some n"
  then obtain r where s: "s = CHR ''('' # r" and n: "n = takeWhile is_digit r" "n \<noteq> []"
    and p: "prefix '' available)'' (dropWhile is_digit r)"
    by (auto simp: match_here_def split: list.splits if_splits)
  from p obtain post where "dropWhile is_digit r = '' available)'' @ post"
    by (auto simp: prefix_def)
  then have "r = n @ '' available)'' @ post"
    using takeWhile_dropWhile_id [of is_digit r] n(1) by simp
  moreover have "list_all is_digit n"
    unfolding n(1) by (simp add: list_all_iff) (meson set_takeWhileD)
  ultimately show "\<exists>post. s = CHR ''('' # n @ '' available)'' @ post \<and> n \<noteq> [] \<and> list_all is_digit n"
    using s n(2) by blast
next
  assume "\<exists>post. s = CHR ''('' # n @ '' available)'' @ post \<and> n \<noteq> [] \<and> list_all is_digit n"
  then obtain post where s: "s = CHR ''('' # n @ '' available)'' @ post" and n: "n \<noteq> []" "list_all is_digit n"
    by blast
  have "takeWhile is_digit (n @ '' available)'' @ post) = n"
    "dropWhile is_digit (n @ '' available)'' @ post) = '' available)'' @ post"
    using takeWhile_digits_then [OF n(2) not_digit_blank] dropWhile_digits_then [OF n(2) not_digit_blank]
    by simp_all
  then show "match_here s = Some n"
    using n(1) by (simp add: match_here_def s)
qed



lemma re_search_Some:
  "re_search t = Some n \<Longrightarrow>
   \<exists>pre post. t = pre @ CHR ''('' # n @ '' available)'' @ post \<and> n \<noteq> [] \<and> list_all is_digit n"
proof (induction t)
  case Nil
  then show ?case by simp
next
  case (Cons c cs)
  show ?case
  proof (cases "match_here (c # cs)")
    case None
    with Cons.prems have "re_search cs = Some n" by simp
    from Cons.IH [OF this] obtain pre post where
      "cs = pre @ CHR ''('' # n @ '' available)'' @ post" "n \<noteq> []" "list_all is_digit n" by blast
    then have "c # cs = (c # pre) @ CHR ''('' # n @ '' available)'' @ post \<and> n \<noteq> [] \<and> list_all is_digit n"
      by simp
    then show ?thesis by blast
  next
    case (Some g)
    with Cons.prems have "match_here (c # cs) = Some n" by simp
    then obtain post where "c # cs = [] @ CHR ''('' # n @ '' available)'' @ post \<and> n \<noteq> [] \<and> list_all is_digit n"
      by (auto simp: match_here_Some_iff)
    then show ?thesis by blast
  qed
qed








lemma py_int_result: "py_int s = Inl ValueError \<or> (\<exists>i. py_int s = Inr i)"
  using py_int_error [of s] by (cases "py_int s") auto

lemma availability_result:
  "availability_of t = Inl ValueError \<or> (\<exists>v. availability_of t = Inr v \<and> 0 \<le> v)"
proof (cases "re_search t")
  case None
  then show ?thesis by (simp add: availability_of_def)
next
  case (Some n)
  from re_search_Some [OF this] have n: "n \<noteq> []" "list_all is_digit n" by auto
  from py_int_digits [OF n(2,1)] Some show ?thesis
    by (simp add: availability_of_def)
qed

lemma availability_nonneg: "availability_of t = Inr v \<Longrightarrow> 0 \<le> v"
  using availability_result [of t] by auto











section \<open>The statistics summary\<close>

lemma series_mean_NaN_iff: "series_mean xs = NaN \<longleftrightarrow> xs = []"
  by (simp add: series_mean_def)

lemma series_max_NaN_iff: "series_max xs = NaN \<longleftrightarrow> xs = []"
  by (simp add: series_max_def)

lemma series_min_NaN_iff: "series_min xs = NaN \<longleftrightarrow> xs = []"
  by (simp add: series_min_def)

lemma analyze_data_empty:
  "analyze_data [] =
     \<lparr>average_price = NaN, max_price = NaN, min_price = NaN, total_available = 0,
      rating_distribution = [], price_by_rating = []\<rparr>"
  by (simp add: analyze_data_def series_mean_def series_max_def series_min_def
      value_counts_sorted_def groupby_rating_price_mean_def rating_index_def)

text \<open>
  C3, as amended. On an empty cleaned frame whose price column holds floats (a selection
  of no rows from cleaned rows) \<open>analyze_data\<close> raises nothing; the total availability is
  0, the rating distribution and the price by rating are empty mappings (no rating has an
  entry, so no count is reported as zero), and the average, the maximal and the minimal
  price are each the float NaN, with no other mark that they are undefined. On a frame
  with float prices these three are NaN exactly when the frame is empty. The frame
  without rows that \<open>clean_data\<close> itself returns when it keeps no row is another frame: its
  price column was never converted, and what \<open>analyze_data\<close> does on it depends on the
  version of pandas; nothing is stated about it.
\<close>

theorem aggregator_on_empty:
  "analyze_frame u (Converted []) =
     Inr \<lparr>average_price = NaN, max_price = NaN, min_price = NaN, total_available = 0,
          rating_distribution = [], price_by_rating = []\<rparr>
   \<and> analyze_frame u (Converted df) = Inr (analyze_data df)
   \<and> average_price (analyze_data []) = NaN
   \<and> max_price (analyze_data []) = NaN
   \<and> min_price (analyze_data []) = NaN
   \<and> total_available (analyze_data []) = 0
   \<and> rating_distribution (analyze_data []) = []
   \<and> price_by_rating (analyze_data []) = []
   \<and> (average_price (analyze_data df) = NaN) = (df = [])
   \<and> (max_price (analyze_data df) = NaN) = (df = [])
   \<and> (min_price (analyze_data df) = NaN) = (df = [])
   \<and> frame_of_cleaned [] = Unconverted
   \<and> analyze_frame u Unconverted = u"
  by (simp add: analyze_frame_def frame_of_cleaned_def analyze_data_empty)
     (simp add: analyze_data_def series_mean_NaN_iff series_max_NaN_iff series_min_NaN_iff)

text \<open>The mean-based statistics of the empty frame of float prices are NaN, and the
  rating 1 has no count.\<close>

theorem aggregator_on_empty_counterexample:
  "analyze_frame (Inl TypeError) (Converted []) =
     Inr \<lparr>average_price = NaN, max_price = NaN, min_price = NaN, total_available = 0,
          rating_distribution = [], price_by_rating = []\<rparr>
   \<and> average_price (analyze_data []) = NaN \<and> max_price (analyze_data []) = NaN
   \<and> min_price (analyze_data []) = NaN
   \<and> map_of (rating_distribution (analyze_data [])) 1 = None"
  by (simp add: analyze_frame_def analyze_data_empty)

lemma map_of_tabulate:
  "map_of (map (\<lambda>k. (k, f k)) ks) k = (if k \<in> set ks then Some (f k) else None)"
  by (induction ks) auto

lemma set_rating_index: "set (rating_index df) = b_rating ` set df"
  by (simp add: rating_index_def)

lemma rating_distribution_keys:
  "map fst (rating_distribution (analyze_data df)) = rating_index df"
  by (simp add: analyze_data_def value_counts_sorted_def comp_def)

lemma rating_distribution_lookup:
  "map_of (rating_distribution (analyze_data df)) k =
     (if k \<in> b_rating ` set df then Some (length (filter (\<lambda>b. b_rating b = k) df)) else None)"
  by (simp add: analyze_data_def value_counts_sorted_def map_of_tabulate set_rating_index)

lemma count_positive:
  "k \<in> b_rating ` set df \<Longrightarrow> 0 < length (filter (\<lambda>b. b_rating b = k) df)"
  by (auto simp: filter_empty_conv)

text \<open>
  C6, as amended. In every statistics summary the rating distribution holds exactly the
  ratings that occur in the cleaned frame, once each and in ascending order, each with the
  number of rows that carry it, which is positive; a rating that does not occur has no
  entry, not an entry with count zero.
\<close>

theorem rating_distribution_keys_present:
  "set (map fst (rating_distribution (analyze_data df))) = b_rating ` set df
   \<and> sorted (map fst (rating_distribution (analyze_data df)))
   \<and> distinct (map fst (rating_distribution (analyze_data df)))
   \<and> map_of (rating_distribution (analyze_data df)) k =
       (if k \<in> b_rating ` set df then Some (length (filter (\<lambda>b. b_rating b = k) df))
        else None)
   \<and> (map_of (rating_distribution (analyze_data df)) k = Some c \<longrightarrow> 0 < c)"
proof -
  have "set (map fst (rating_distribution (analyze_data df))) = b_rating ` set df"
    by (simp only: rating_distribution_keys set_rating_index)
  moreover have "sorted (map fst (rating_distribution (analyze_data df)))"
    by (simp only: rating_distribution_keys) (simp add: rating_index_def)
  moreover have "distinct (map fst (rating_distribution (analyze_data df)))"
    by (simp only: rating_distribution_keys) (simp add: rating_index_def)
  moreover have "map_of (rating_distribution (analyze_data df)) k = Some c \<longrightarrow> 0 < c"
    using count_positive [of k df] by (auto simp: rating_distribution_lookup split: if_splits)
  ultimately show ?thesis
    using rating_distribution_lookup [of df k] by blast
qed

theorem rating_distribution_keys_present_witness:
  "b_rating ` set [zero_book] = {3}
   \<and> set (map fst (rating_distribution (analyze_data [zero_book]))) = {3}
   \<and> map_of (rating_distribution (analyze_data [zero_book])) 3 = Some 1
   \<and> (0 :: nat) < 1"
proof -
  note t = rating_distribution_keys_present [of "[zero_book]" 3 1]
  have r: "b_rating ` set [zero_book] = {3}"
    by (simp add: zero_book_def)
  from t r have "set (map fst (rating_distribution (analyze_data [zero_book]))) = {3}"
    by simp
  moreover from t r have "map_of (rating_distribution (analyze_data [zero_book])) 3
      = Some (length (filter (\<lambda>b. b_rating b = 3) [zero_book]))"
    by simp
  then have "map_of (rating_distribution (analyze_data [zero_book])) 3 = Some 1"
    by (simp add: zero_book_def)
  ultimately show ?thesis
    using r by simp
qed

text \<open>A frame of one book rated 3: the distribution has the key 3 only.\<close>

theorem rating_distribution_keys_present_counterexample:
  "rating_distribution (analyze_data [zero_book]) = [(3, 1)]
   \<and> map_of (rating_distribution (analyze_data [zero_book])) 1 = None"
  by (simp add: analyze_data_def value_counts_sorted_def rating_index_def zero_book_def)

section \<open>The crawl\<close>

subsection \<open>The fixture runs\<close>

lemmas crawl_eval = scrape_book_def listing_fields_def detail_fields_def and_then_def
  h3_a_attr_def subscript_def text_of_def rating_token_def th_value_def book_url_of_def
  base_url_def page_url_def str_int_def availability_of_def match_here_def strip_def
  is_space_def is_digit_def digits_value_def digit_value_def py_int_def int_literal_def
  int_strip_def is_int_space_def int_max_str_digits_def

lemmas fixture_defs = card_def card_a_def card_b_def card_c_def detail_page_def
  described_def listing3_def url_page1_def url_a_def url_b_def url_c_def web_with_def
  scraped_def records3_def

lemma page_url_1: "page_url 1 = url_page1"
  by (simp add: page_url_def str_int_def base_url_def url_page1_def)

lemma run_ok:
  "scrape_books web_ok 1 =
     (Inr records3,
      [Request Listing url_page1, Request Detail url_a, Sleep 500,
       Request Detail url_b, Sleep 500, Request Detail url_c, Sleep 500])"
  by (simp add: scrape_books_def web_ok_def crawl_eval fixture_defs)

lemma run_one_failure:
  "scrape_books web_one_failure 1 =
     (Inl RequestException,
      [Request Listing url_page1, Request Detail url_a, Sleep 500, Request Detail url_b])"
  by (simp add: scrape_books_def web_one_failure_def crawl_eval fixture_defs)

lemma run_no_meta:
  "scrape_books web_no_meta 1 =
     (Inl TypeError,
      [Request Listing url_page1, Request Detail url_a, Sleep 500, Request Detail url_b])"
  by (simp add: scrape_books_def web_no_meta_def crawl_eval fixture_defs)

subsection \<open>The loops\<close>

text \<open>The three outcomes of the loop body.\<close>

lemma scrape_book_cases:
  obtains (no_listing) e where "listing_fields book = Inl e" "scrape_book get book = (Inl e, [])"
  | (no_detail) t p r a href e where "listing_fields book = Inr (t, p, r, a, href)"
      "and_then (get (book_url_of href)) detail_fields = Inl e"
      "scrape_book get book = (Inl e, [Request Detail (book_url_of href)])"
  | (row) t p r a href page d rec where "listing_fields book = Inr (t, p, r, a, href)"
      "get (book_url_of href) = Inr page" "detail_fields page = Inr d"
      "scrape_book get book = (Inr rec, [Request Detail (book_url_of href), Sleep 500])"
      "all_present rec" "0 \<le> availability rec"
proof (cases "listing_fields book")
  case (Inl e)
  then have "scrape_book get book = (Inl e, [])" by (simp add: scrape_book_def)
  with Inl show ?thesis by (rule no_listing)
next
  case (Inr x)
  then obtain t p r a href where l: "listing_fields book = Inr (t, p, r, a, href)"
    by (cases x) auto
  show ?thesis
  proof (cases "and_then (get (book_url_of href)) detail_fields")
    case (Inl e)
    with l have "scrape_book get book = (Inl e, [Request Detail (book_url_of href)])"
      by (simp add: scrape_book_def)
    with l Inl show ?thesis by (rule no_detail)
  next
    case (Inr d)
    then obtain page where g: "get (book_url_of href) = Inr page" "detail_fields page = Inr d"
      by (auto simp: and_then_Inr_iff)
    obtain d1 d2 d3 d4 d5 d6 d7 where d: "d = (d1, d2, d3, d4, d5, d6, d7)"
      by (cases d) auto
    from l have a: "\<exists>text. availability_of text = Inr a"
      by (auto simp: listing_fields_def and_then_Inr_iff)
    define rec where "rec = \<lparr>title = Some t, price = Some p, rating = Some r,
                     availability = a, upc = Some d2, product_type = Some d3,
                     price_excl_tax = Some d4, price_incl_tax = Some d5,
                     tax = Some d6, num_reviews = StrCell d7, description = Some d1\<rparr>"
    from l Inr d have s: "scrape_book get book =
        (Inr rec, [Request Detail (book_url_of href), Sleep 500])"
      by (simp add: scrape_book_def rec_def)
    have c: "all_present rec" by (simp add: all_present_def rec_def)
    have n: "0 \<le> availability rec"
      using a by (auto simp: rec_def dest: availability_nonneg)
    show ?thesis by (rule row [OF l g s c n])
  qed
qed

lemma scrape_book_Inr:
  assumes "fst (scrape_book get book) = Inr rec"
  shows "\<exists>t p r a href page d. listing_fields book = Inr (t, p, r, a, href)
      \<and> get (book_url_of href) = Inr page \<and> detail_fields page = Inr d
      \<and> snd (scrape_book get book) = [Request Detail (book_url_of href), Sleep 500]
      \<and> all_present rec \<and> 0 \<le> availability rec"
  by (rule scrape_book_cases [of book get]) (use assms in auto)

lemma scrape_book_detail_failure:
  assumes "listing_fields book = Inr (t, p, r, a, href)"
    "and_then (get (book_url_of href)) detail_fields = Inl e"
  shows "scrape_book get book = (Inl e, [Request Detail (book_url_of href)])"
  using assms by (simp add: scrape_book_def)

text \<open>The inner loop returns rows exactly when every card yields one.\<close>

lemma scrape_page_books_Inr_iff:
  "fst (scrape_page_books get books acc) = Inr recs \<longleftrightarrow>
     (\<exists>rs. list_all2 (\<lambda>b r. fst (scrape_book get b) = Inr r) books rs \<and> recs = acc @ rs)"
proof (induction books arbitrary: acc)
  case Nil
  then show ?case by auto
next
  case (Cons b books)
  show ?case
  proof (cases "fst (scrape_book get b)")
    case (Inl e)
    then have "fst (scrape_page_books get (b # books) acc) = Inl e"
      by (cases "scrape_book get b") simp
    with Inl show ?thesis by (auto simp: list_all2_Cons1)
  next
    case (Inr r)
    then have "fst (scrape_page_books get (b # books) acc)
        = fst (scrape_page_books get books (acc @ [r]))"
      by (cases "scrape_book get b") (simp split: prod.splits)
    with Inr Cons.IH [of "acc @ [r]"] show ?thesis
      by (auto simp: list_all2_Cons1)
  qed
qed

lemma scrape_page_books_result:
  "(\<exists>e. fst (scrape_page_books get books acc) = Inl e)
   \<or> (\<exists>recs. fst (scrape_page_books get books acc) = Inr recs)"
  by (cases "fst (scrape_page_books get books acc)") auto

text \<open>The outer loop returns rows exactly when every page is served and every card of
  every page yields a row.\<close>

lemma scrape_pages_Inr_iff:
  "fst (scrape_pages get pages acc) = Inr recs \<longleftrightarrow>
     (\<exists>soups rss. list_all2 (\<lambda>p s. get (page_url p) = Inr s) pages soups
        \<and> list_all2 (\<lambda>s rs. list_all2 (\<lambda>b r. fst (scrape_book get b) = Inr r)
              (product_pods s) rs) soups rss
        \<and> recs = acc @ concat rss)"
proof (induction pages arbitrary: acc)
  case Nil
  then show ?case by auto
next
  case (Cons p pages)
  show ?case
  proof (cases "get (page_url p)")
    case (Inl e)
    then show ?thesis by (auto simp: list_all2_Cons1)
  next
    case (Inr s)
    show ?thesis
    proof (cases "fst (scrape_page_books get (product_pods s) acc)")
      case (Inl e)
      then have "fst (scrape_pages get (p # pages) acc) = Inl e"
        using Inr by (cases "scrape_page_books get (product_pods s) acc") simp
      moreover have "\<not> (\<exists>rs. list_all2 (\<lambda>b r. fst (scrape_book get b) = Inr r)
            (product_pods s) rs)"
        using Inl scrape_page_books_Inr_iff [of get "product_pods s" acc] by auto
      ultimately show ?thesis
        using Inr by (auto simp: list_all2_Cons1)
    next
      case acc': (Inr acc')
      then have step: "fst (scrape_pages get (p # pages) acc) = fst (scrape_pages get pages acc')"
        using Inr
        by (cases "scrape_page_books get (product_pods s) acc") (simp split: prod.splits)
      from acc' obtain rs where rs: "list_all2 (\<lambda>b r. fst (scrape_book get b) = Inr r)
            (product_pods s) rs" "acc' = acc @ rs"
        using scrape_page_books_Inr_iff [of get "product_pods s" acc acc'] by auto
      have uniq: "rs' = rs" if "list_all2 (\<lambda>b r. fst (scrape_book get b) = Inr r)
            (product_pods s) rs'" for rs'
        using that rs(1)
        by (auto simp: list_all2_conv_all_nth intro!: nth_equalityI)
      show ?thesis
      proof
        assume "fst (scrape_pages get (p # pages) acc) = Inr recs"
        with step Cons.IH [of acc'] obtain soups rss where
          "list_all2 (\<lambda>p s. get (page_url p) = Inr s) pages soups"
          "list_all2 (\<lambda>s rs. list_all2 (\<lambda>b r. fst (scrape_book get b) = Inr r)
              (product_pods s) rs) soups rss"
          "recs = acc' @ concat rss"
          by auto
        with Inr rs have "list_all2 (\<lambda>p s. get (page_url p) = Inr s) (p # pages) (s # soups)
          \<and> list_all2 (\<lambda>s rs. list_all2 (\<lambda>b r. fst (scrape_book get b) = Inr r)
              (product_pods s) rs) (s # soups) (rs # rss)
          \<and> recs = acc @ concat (rs # rss)"
          by simp
        then show "\<exists>soups rss. list_all2 (\<lambda>p s. get (page_url p) = Inr s) (p # pages) soups
          \<and> list_all2 (\<lambda>s rs. list_all2 (\<lambda>b r. fst (scrape_book get b) = Inr r)
              (product_pods s) rs) soups rss
          \<and> recs = acc @ concat rss"
          by blast
      next
        assume "\<exists>soups rss. list_all2 (\<lambda>p s. get (page_url p) = Inr s) (p # pages) soups
          \<and> list_all2 (\<lambda>s rs. list_all2 (\<lambda>b r. fst (scrape_book get b) = Inr r)
              (product_pods s) rs) soups rss
          \<and> recs = acc @ concat rss"
        then obtain soups rss where
          a: "list_all2 (\<lambda>p s. get (page_url p) = Inr s) (p # pages) soups"
          and b: "list_all2 (\<lambda>s rs. list_all2 (\<lambda>b r. fst (scrape_book get b) = Inr r)
              (product_pods s) rs) soups rss"
          and c: "recs = acc @ concat rss"
          by blast
        from a Inr obtain soups' where soups: "soups = s # soups'"
          "list_all2 (\<lambda>p s. get (page_url p) = Inr s) pages soups'"
          by (auto simp: list_all2_Cons1)
        with b obtain rs' rss' where rss: "rss = rs' # rss'"
          "list_all2 (\<lambda>b r. fst (scrape_book get b) = Inr r) (product_pods s) rs'"
          "list_all2 (\<lambda>s rs. list_all2 (\<lambda>b r. fst (scrape_book get b) = Inr r)
              (product_pods s) rs) soups' rss'"
          by (auto simp: list_all2_Cons1)
        from uniq [OF rss(2)] have "rs' = rs" .
        with c rss(1) rs(2) have "recs = acc' @ concat rss'" by simp
        with soups(2) rss(3) have "fst (scrape_pages get pages acc') = Inr recs"
          using Cons.IH [of acc'] by blast
        with step show "fst (scrape_pages get (p # pages) acc) = Inr recs" by simp
      qed
    qed
  qed
qed

lemma list_all2_concat:
  "list_all2 (list_all2 P) xss yss \<Longrightarrow> list_all2 P (concat xss) (concat yss)"
  by (induction xss yss rule: list_all2_induct) (auto intro: list_all2_appendI)

lemma served_pages_listed:
  "list_all2 (\<lambda>p s. get (page_url p) = Inr s) pages soups \<Longrightarrow>
   map (listed get) pages = map product_pods soups"
  by (induction pages soups rule: list_all2_induct) (auto simp: listed_def)

lemma rows_of_pods:
  assumes "list_all2 (\<lambda>s rs. list_all2 P (product_pods s) rs) soups rss"
  shows "list_all2 (list_all2 P) (map product_pods soups) rss"
  using assms by (induction soups rss rule: list_all2_induct) auto

text \<open>A run that returns rows returns one row for each listed card, in listing order.\<close>

lemma scrape_pages_rows:
  assumes "fst (scrape_pages get pages []) = Inr recs"
  shows "list_all2 (\<lambda>b r. fst (scrape_book get b) = Inr r) (concat (map (listed get) pages)) recs"
proof -
  from assms obtain soups rss where
    a: "list_all2 (\<lambda>p s. get (page_url p) = Inr s) pages soups" and
    b: "list_all2 (\<lambda>s rs. list_all2 (\<lambda>b r. fst (scrape_book get b) = Inr r)
              (product_pods s) rs) soups rss" and
    c: "recs = concat rss"
    by (auto simp: scrape_pages_Inr_iff)
  from rows_of_pods [OF b] show ?thesis
    unfolding served_pages_listed [OF a] c by (rule list_all2_concat)
qed

lemma scrape_pages_served:
  assumes "fst (scrape_pages get pages acc) = Inr recs" "p \<in> set pages"
  shows "\<exists>s. get (page_url p) = Inr s"
proof -
  from assms(1) obtain soups where
    a: "list_all2 (\<lambda>p s. get (page_url p) = Inr s) pages soups"
    by (auto simp: scrape_pages_Inr_iff)
  from assms(2) obtain i where "i < length pages" "pages ! i = p"
    by (auto simp: in_set_conv_nth)
  with a have "get (page_url p) = Inr (soups ! i)"
    by (auto simp: list_all2_conv_all_nth)
  then show ?thesis by blast
qed

lemma listed_card:
  assumes "p \<in> set pages" "get (page_url p) = Inr s" "b \<in> set (product_pods s)"
  shows "b \<in> set (concat (map (listed get) pages))"
proof -
  from assms(2,3) have "b \<in> set (listed get p)"
    by (simp add: listed_def)
  with assms(1) show ?thesis by auto
qed

lemma scrape_pages_every_card:
  assumes "fst (scrape_pages get pages []) = Inr recs"
    "p \<in> set pages" "get (page_url p) = Inr s" "b \<in> set (product_pods s)"
  shows "\<exists>r \<in> set recs. fst (scrape_book get b) = Inr r"
proof -
  from listed_card [of p pages get s b] assms(2-4)
  have "b \<in> set (concat (map (listed get) pages))" by blast
  then obtain i where
    i: "i < length (concat (map (listed get) pages))" "concat (map (listed get) pages) ! i = b"
    unfolding in_set_conv_nth by blast
  from scrape_pages_rows [OF assms(1)] i
  have "fst (scrape_book get b) = Inr (recs ! i)" "i < length recs"
    by (auto simp: list_all2_conv_all_nth)
  then show ?thesis by auto
qed

lemma scrape_pages_row_origin:
  assumes "fst (scrape_pages get pages []) = Inr recs" "r \<in> set recs"
  shows "\<exists>b. fst (scrape_book get b) = Inr r"
proof -
  from assms(2) obtain i where "i < length recs" "recs ! i = r"
    by (auto simp: in_set_conv_nth)
  with scrape_pages_rows [OF assms(1)] show ?thesis
    by (auto simp: list_all2_conv_all_nth)
qed

text \<open>An exception in the body of the inner loop ends the run: no rows are returned.\<close>

lemma book_failure_ends_run:
  assumes "p \<in> set pages" "get (page_url p) = Inr s" "b \<in> set (product_pods s)"
    "fst (scrape_book get b) = Inl e"
  shows "\<exists>e'. fst (scrape_pages get pages []) = Inl e'"
proof (cases "fst (scrape_pages get pages [])")
  case (Inl e')
  then show ?thesis by blast
next
  case (Inr recs)
  from scrape_pages_every_card [OF Inr assms(1-3)] assms(4) show ?thesis by auto
qed

lemma set_upto_pages: "set [1..n] = {1..n}"
  by simp

subsection \<open>Rows of a run\<close>

lemma all_present_kept:
  assumes "\<forall>r \<in> set recs. all_present r"
  shows "dropna recs = recs" "map assign_fillna (dropna recs) = recs"
proof -
  from assms show d: "dropna recs = recs"
    by (auto simp: dropna_def all_present_def filter_id_conv)
  have "assign_fillna r = r" if "r \<in> set recs" for r
  proof -
    from assms that have "all_present r" by blast
    then obtain d where "description r = Some d" "num_reviews r \<noteq> NullCell"
      by (auto simp: all_present_def)
    then show ?thesis
      by (cases "num_reviews r") (simp_all add: assign_fillna_def fillna_cell_def)
  qed
  then show "map assign_fillna (dropna recs) = recs"
    unfolding d by (simp add: map_idI)
qed

lemma scrape_book_row_complete:
  "fst (scrape_book get b) = Inr r \<Longrightarrow> all_present r \<and> 0 \<le> availability r"
  using scrape_book_Inr [of get b r] by blast

lemma scrape_books_rows_complete:
  assumes "fst (scrape_books get n) = Inr recs" "r \<in> set recs"
  shows "all_present r \<and> 0 \<le> availability r"
proof -
  from assms obtain b where "fst (scrape_book get b) = Inr r"
    using scrape_pages_row_origin [of get "[1..n]" recs r] by (auto simp: scrape_books_def)
  then show ?thesis by (rule scrape_book_row_complete)
qed

subsection \<open>Traces of a run\<close>

lemma paced_after_sleep [simp]: "paced (Sleep ms # tr) = paced tr"
  by (cases tr) simp_all

lemma paced_after_listing [simp]: "paced (Request Listing u # tr) = paced tr"
  by (cases tr) simp_all

lemma paced_detail_sleep [simp]: "paced (Request Detail u # Sleep 500 # tr) = paced tr"
  by simp

lemma scrape_page_books_fail:
  "scrape_book get b = (Inl e, evs) \<Longrightarrow> scrape_page_books get (b # books) acc = (Inl e, evs)"
  by simp

lemma scrape_page_books_row:
  "scrape_book get b = (Inr rec, evs) \<Longrightarrow>
   scrape_page_books get (b # books) acc =
     (fst (scrape_page_books get books (acc @ [rec])),
      evs @ snd (scrape_page_books get books (acc @ [rec])))"
  by (simp split: prod.splits)

lemma scrape_pages_unserved:
  "get (page_url p) = Inl e \<Longrightarrow>
   scrape_pages get (p # pages) acc = (Inl e, [Request Listing (page_url p)])"
  by simp

lemma scrape_pages_books_fail:
  "get (page_url p) = Inr s \<Longrightarrow> scrape_page_books get (product_pods s) acc = (Inl e, evs) \<Longrightarrow>
   scrape_pages get (p # pages) acc = (Inl e, Request Listing (page_url p) # evs)"
  by simp

lemma scrape_pages_next:
  "get (page_url p) = Inr s \<Longrightarrow> scrape_page_books get (product_pods s) acc = (Inr acc', evs) \<Longrightarrow>
   scrape_pages get (p # pages) acc =
     (fst (scrape_pages get pages acc'),
      Request Listing (page_url p) # evs @ snd (scrape_pages get pages acc'))"
  by (simp split: prod.splits)

lemma paced_page_books_then:
  "fst (scrape_page_books get books acc) = Inr recs \<Longrightarrow>
   paced (snd (scrape_page_books get books acc) @ tr) = paced tr"
proof (induction books arbitrary: acc)
  case Nil
  then show ?case by simp
next
  case (Cons b books)
  show ?case
  proof (rule scrape_book_cases [of b get])
    fix e assume "listing_fields b = Inl e" "scrape_book get b = (Inl e, [])"
    with Cons.prems show ?thesis by (simp add: scrape_page_books_fail)
  next
    fix t p r a href e
    assume "scrape_book get b = (Inl e, [Request Detail (book_url_of href)])"
    with Cons.prems show ?thesis by (simp add: scrape_page_books_fail)
  next
    fix t p r a href page d rec
    assume s: "scrape_book get b = (Inr rec, [Request Detail (book_url_of href), Sleep 500])"
    note step = scrape_page_books_row [OF s, of books acc]
    from Cons.prems have "fst (scrape_page_books get books (acc @ [rec])) = Inr recs"
      by (simp only: step fst_conv)
    from Cons.IH [OF this] show ?thesis
      by (simp only: step snd_conv) simp
  qed
qed

lemma paced_page_books: "paced (snd (scrape_page_books get books acc))"
proof (induction books arbitrary: acc)
  case Nil
  then show ?case by simp
next
  case (Cons b books)
  show ?case
  proof (rule scrape_book_cases [of b get])
    fix e assume "listing_fields b = Inl e" "scrape_book get b = (Inl e, [])"
    then show ?thesis by (simp add: scrape_page_books_fail)
  next
    fix t p r a href e
    assume "scrape_book get b = (Inl e, [Request Detail (book_url_of href)])"
    then show ?thesis by (simp add: scrape_page_books_fail)
  next
    fix t p r a href page d rec
    assume s: "scrape_book get b = (Inr rec, [Request Detail (book_url_of href), Sleep 500])"
    note step = scrape_page_books_row [OF s, of books acc]
    from Cons.IH [of "acc @ [rec]"] show ?thesis
      by (simp only: step snd_conv) simp
  qed
qed

lemma paced_pages: "paced (snd (scrape_pages get pages acc))"
proof (induction pages arbitrary: acc)
  case Nil
  then show ?case by simp
next
  case (Cons p pages)
  show ?case
  proof (cases "get (page_url p)")
    case (Inl e)
    then show ?thesis by (simp add: scrape_pages_unserved)
  next
    case (Inr s)
    obtain res evs where b: "scrape_page_books get (product_pods s) acc = (res, evs)"
      by (cases "scrape_page_books get (product_pods s) acc") auto
    show ?thesis
    proof (cases res)
      case (Inl e)
      from paced_page_books [of get "product_pods s" acc] b have "paced evs" by simp
      then show ?thesis
        by (simp only: scrape_pages_books_fail [OF Inr b [unfolded Inl]] snd_conv) simp
    next
      case acc': (Inr acc')
      from paced_page_books_then [of get "product_pods s" acc acc'] b acc'
      have "paced (evs @ tr) = paced tr" for tr by simp
      with Cons.IH [of acc'] show ?thesis
        by (simp only: scrape_pages_next [OF Inr b [unfolded acc']] snd_conv) simp
    qed
  qed
qed

text \<open>Every sleep of a run is the half second of the source.\<close>

lemma plain_simps: "plain (Request k u)" "plain (Sleep ms) = (ms = 500)"
  by (simp_all add: plain_def)

lemma plain_page_books: "list_all plain (snd (scrape_page_books get books acc))"
proof (induction books arbitrary: acc)
  case Nil
  then show ?case by simp
next
  case (Cons b books)
  show ?case
  proof (rule scrape_book_cases [of b get])
    fix e assume "listing_fields b = Inl e" "scrape_book get b = (Inl e, [])"
    then show ?thesis by (simp add: scrape_page_books_fail)
  next
    fix t p r a href e
    assume "scrape_book get b = (Inl e, [Request Detail (book_url_of href)])"
    then show ?thesis by (simp add: scrape_page_books_fail plain_simps)
  next
    fix t p r a href page d rec
    assume s: "scrape_book get b = (Inr rec, [Request Detail (book_url_of href), Sleep 500])"
    note step = scrape_page_books_row [OF s, of books acc]
    from Cons.IH [of "acc @ [rec]"] show ?thesis
      by (simp only: step snd_conv) (simp add: plain_simps)
  qed
qed

lemma plain_pages: "list_all plain (snd (scrape_pages get pages acc))"
proof (induction pages arbitrary: acc)
  case Nil
  then show ?case by simp
next
  case (Cons p pages)
  show ?case
  proof (cases "get (page_url p)")
    case (Inl e)
    then show ?thesis by (simp add: scrape_pages_unserved plain_simps)
  next
    case (Inr s)
    obtain res evs where b: "scrape_page_books get (product_pods s) acc = (res, evs)"
      by (cases "scrape_page_books get (product_pods s) acc") auto
    from plain_page_books [of get "product_pods s" acc] b have evs: "list_all plain evs" by simp
    show ?thesis
    proof (cases res)
      case (Inl e)
      from evs show ?thesis
        by (simp only: scrape_pages_books_fail [OF Inr b [unfolded Inl]] snd_conv)
           (simp add: plain_simps)
    next
      case acc': (Inr acc')
      from evs Cons.IH [of acc'] show ?thesis
        by (simp only: scrape_pages_next [OF Inr b [unfolded acc']] snd_conv)
           (simp add: plain_simps)
    qed
  qed
qed

lemma served_simps:
  "served get (Sleep ms)" "served get (Request k u) = (\<exists>s. get u = Inr s)"
  by (simp_all add: served_def split: sum.splits)

lemma list_all_butlast: "list_all P xs \<Longrightarrow> list_all P (butlast xs)"
  by (auto simp: list_all_iff dest: in_set_butlastD)

lemma settled_Inr: "settled get (Inr x) tr \<longleftrightarrow> list_all (served get) tr"
  by (simp add: settled_def)

lemma settled_Inl:
  "settled get (Inl e) tr \<longleftrightarrow>
     list_all (served get) (butlast tr)
     \<and> (tr = [] \<or> served get (last tr) \<or> (\<exists>k u. last tr = Request k u \<and> get u = Inl e))"
  by (simp add: settled_def)

lemma settled_append:
  assumes "list_all (served get) evs" "settled get res evs'"
  shows "settled get res (evs @ evs')"
proof (cases res)
  case (Inr x)
  with assms show ?thesis by (simp add: settled_Inr)
next
  case (Inl e)
  show ?thesis
  proof (cases "evs' = []")
    case True
    have "evs = [] \<or> served get (last evs)"
      using assms(1) by (cases "evs = []") (simp_all add: list_all_iff)
    with list_all_butlast [OF assms(1)] True Inl show ?thesis
      by (auto simp: settled_Inl)
  next
    case False
    with assms Inl show ?thesis
      by (simp add: settled_Inl butlast_append)
  qed
qed

lemma settled_book: "settled get (fst (scrape_book get b)) (snd (scrape_book get b))"
proof (rule scrape_book_cases [of b get])
  fix e assume "listing_fields b = Inl e" "scrape_book get b = (Inl e, [])"
  then show ?thesis by (simp add: settled_Inl)
next
  fix t p r a href e
  assume d: "and_then (get (book_url_of href)) detail_fields = Inl e"
    and s: "scrape_book get b = (Inl e, [Request Detail (book_url_of href)])"
  from d have "get (book_url_of href) = Inl e \<or> (\<exists>page. get (book_url_of href) = Inr page)"
    by (cases "get (book_url_of href)") (simp_all add: and_then_def)
  with s show ?thesis by (auto simp: settled_Inl served_simps)
next
  fix t p r a href page d rec
  assume "get (book_url_of href) = Inr page"
    "scrape_book get b = (Inr rec, [Request Detail (book_url_of href), Sleep 500])"
  then show ?thesis by (simp add: settled_Inr served_simps)
qed

lemma settled_page_books:
  "settled get (fst (scrape_page_books get books acc)) (snd (scrape_page_books get books acc))"
proof (induction books arbitrary: acc)
  case Nil
  then show ?case by (simp add: settled_Inr)
next
  case (Cons b books)
  obtain res evs where s: "scrape_book get b = (res, evs)"
    by (cases "scrape_book get b") auto
  from settled_book [of get b] s have sb: "settled get res evs" by simp
  show ?case
  proof (cases res)
    case (Inl e)
    with sb have "settled get (Inl e :: error + raw_record list) evs"
      by (simp add: settled_Inl)
    then show ?thesis
      by (simp only: scrape_page_books_fail [OF s [unfolded Inl]] fst_conv snd_conv)
  next
    case (Inr rec)
    with sb have "list_all (served get) evs" by (simp add: settled_Inr)
    from settled_append [OF this Cons.IH [of "acc @ [rec]"]] show ?thesis
      by (simp only: scrape_page_books_row [OF s [unfolded Inr]] fst_conv snd_conv)
  qed
qed

lemma settled_Cons:
  "served get e \<Longrightarrow> settled get res tr \<Longrightarrow> settled get res (e # tr)"
  using settled_append [of get "[e]" res tr] by simp

lemma settled_pages:
  "settled get (fst (scrape_pages get pages acc)) (snd (scrape_pages get pages acc))"
proof (induction pages arbitrary: acc)
  case Nil
  then show ?case by (simp add: settled_Inr)
next
  case (Cons p pages)
  show ?case
  proof (cases "get (page_url p)")
    case (Inl e)
    then show ?thesis
      by (simp add: settled_Inl)
  next
    case (Inr s)
    then have l: "served get (Request Listing (page_url p))"
      by (simp add: served_simps)
    obtain res evs where b: "scrape_page_books get (product_pods s) acc = (res, evs)"
      by (cases "scrape_page_books get (product_pods s) acc") auto
    from settled_page_books [of get "product_pods s" acc] b have sb: "settled get res evs"
      by simp
    show ?thesis
    proof (cases res)
      case (Inl e)
      from sb Inl have "settled get (Inl e :: error + raw_record list) evs"
        by (simp add: settled_Inl)
      from settled_Cons [OF l this] show ?thesis
        by (simp only: scrape_pages_books_fail [of get p s acc e evs pages, OF Inr b [unfolded Inl]]
            fst_conv snd_conv)
    next
      case acc': (Inr acc')
      with sb have "list_all (served get) evs" by (simp add: settled_Inr)
      from settled_Cons [OF l settled_append [OF this Cons.IH [of acc']]] show ?thesis
        by (simp only: scrape_pages_next [of get p s acc acc' evs pages, OF Inr b [unfolded acc']]
            fst_conv snd_conv)
    qed
  qed
qed

lemma settled_butlast: "settled get res tr \<Longrightarrow> list_all (served get) (butlast tr)"
  by (cases res) (simp_all add: settled_Inl settled_Inr list_all_butlast)

lemma attempts_served:
  "get url = Inl e \<Longrightarrow> list_all (served get) tr \<Longrightarrow> attempts url tr = 0"
  by (induction tr) (auto simp: attempts_def served_simps)

lemma attempts_append: "attempts url (a @ b) = attempts url a + attempts url b"
  by (simp add: attempts_def)

lemma attempts_once:
  assumes "settled get res tr" "get url = Inl e"
  shows "attempts url tr \<le> 1" and "attempts url tr = 1 \<Longrightarrow> res = Inl e"
proof -
  have z: "attempts url (butlast tr) = 0"
    using attempts_served [OF assms(2) settled_butlast [OF assms(1)]] .
  show "attempts url tr \<le> 1"
  proof (cases "tr = []")
    case True
    then show ?thesis by (simp add: attempts_def)
  next
    case False
    then have "tr = butlast tr @ [last tr]" by simp
    then have "attempts url tr = attempts url (butlast tr) + attempts url [last tr]"
      using attempts_append [of url "butlast tr" "[last tr]"] by simp
    with z show ?thesis by (simp add: attempts_def)
  qed
  assume one: "attempts url tr = 1"
  then have ne: "tr \<noteq> []" by (auto simp: attempts_def)
  then have "tr = butlast tr @ [last tr]" by simp
  then have "attempts url tr = attempts url (butlast tr) + attempts url [last tr]"
    using attempts_append [of url "butlast tr" "[last tr]"] by simp
  with z one have "attempts url [last tr] = 1" by simp
  then have l: "last tr = Request Listing url \<or> last tr = Request Detail url"
    by (auto simp: attempts_def split: if_splits)
  with assms(2) have ns: "\<not> served get (last tr)" by (auto simp: served_simps)
  show "res = Inl e"
  proof (cases res)
    case (Inr x)
    with assms(1) have "list_all (served get) tr" by (simp add: settled_Inr)
    with ne have "served get (last tr)" by (simp add: list_all_iff)
    with ns show ?thesis by simp
  next
    case (Inl e')
    with assms(1) ne ns obtain k u where "last tr = Request k u" "get u = Inl e'"
      by (auto simp: settled_Inl)
    with l assms(2) Inl show ?thesis by auto
  qed
qed

section \<open>A failed detail fetch\<close>

lemma detail_failure_ends_run:
  assumes "p \<in> {1..n}" "get (page_url p) = Inr s" "b \<in> set (product_pods s)"
    "listing_fields b = Inr (t, pr, ra, av, href)"
    "and_then (get (book_url_of href)) detail_fields = Inl e"
  shows "\<exists>e'. fst (scrape_books get n) = Inl e'"
proof -
  from scrape_book_detail_failure [of b t pr ra av href get e] assms(4,5)
  have "fst (scrape_book get b) = Inl e" by simp
  with assms(1-3) show ?thesis
    using book_failure_ends_run [of p "[1..n]" get s b e] by (simp add: scrape_books_def)
qed

lemma scrape_books_rows:
  assumes "fst (scrape_books get n) = Inr recs"
  shows "list_all2 (\<lambda>b r. fst (scrape_book get b) = Inr r) (concat (map (listed get) [1..n])) recs"
  using scrape_pages_rows [of get "[1..n]" recs] assms by (simp add: scrape_books_def)

lemma scrape_books_details_fetched:
  assumes "fst (scrape_books get n) = Inr recs" "b \<in> set (concat (map (listed get) [1..n]))"
  shows "\<exists>t p r a href page d. listing_fields b = Inr (t, p, r, a, href)
      \<and> get (book_url_of href) = Inr page \<and> detail_fields page = Inr d"
proof -
  from assms(2) obtain i where
    i: "i < length (concat (map (listed get) [1..n]))" "concat (map (listed get) [1..n]) ! i = b"
    unfolding in_set_conv_nth by blast
  with scrape_books_rows [OF assms(1)] have "fst (scrape_book get b) = Inr (recs ! i)"
    by (auto simp: list_all2_conv_all_nth)
  from scrape_book_Inr [OF this] show ?thesis by blast
qed

text \<open>
  C2, as amended. A crawl in which the detail fetch of one item fails is aborted: when the
  request of a listed card's detail page raises, or a mandatory lookup on the page fails,
  \<open>scrape_books\<close> raises and returns no row, neither for that item nor for any other, and
  it keeps no count of warnings. A run returns rows only when the detail page of every
  listed card was fetched and read, and then it returns one row for each listed card, in
  listing order.
\<close>

theorem detail_failure_aborts_crawl:
  "(p \<in> {1..n} \<and> get (page_url p) = Inr s \<and> b \<in> set (product_pods s)
      \<and> listing_fields b = Inr (t, pr, ra, av, href)
      \<and> and_then (get (book_url_of href)) detail_fields = Inl e
     \<longrightarrow> (\<exists>e'. fst (scrape_books get n) = Inl e'))
   \<and> (fst (scrape_books get n) = Inr recs \<longrightarrow>
        list_all2 (\<lambda>b r. fst (scrape_book get b) = Inr r)
          (concat (map (listed get) [1..n])) recs
        \<and> (\<forall>b \<in> set (concat (map (listed get) [1..n])).
              \<exists>t p r a href page d. listing_fields b = Inr (t, p, r, a, href)
                \<and> get (book_url_of href) = Inr page \<and> detail_fields page = Inr d))"
  using detail_failure_ends_run [of p n get s b t pr ra av href e]
    scrape_books_rows [of get n recs] scrape_books_details_fetched [of get n recs]
  by blast

lemma listing_card_b:
  "listing_fields card_b = Inr (''B'', CHR 0xA3 # ''53.74'', ''One'', 1, ''b_2/index.html'')"
  by (simp add: crawl_eval fixture_defs)

lemma url_b_book: "book_url_of ''b_2/index.html'' = url_b"
  by (simp add: book_url_of_def base_url_def url_b_def)

lemma web_one_failure_b:
  "and_then (web_one_failure (book_url_of ''b_2/index.html'')) detail_fields = Inl RequestException"
  by (simp add: url_b_book) (simp add: web_one_failure_def web_with_def and_then_def url_page1_def url_a_def url_b_def)

lemma web_page1: "web_with x (page_url 1) = Inr listing3"
  by (simp add: page_url_1 web_with_def)

theorem detail_failure_aborts_crawl_witness:
  "(1 :: int) \<in> {1..1} \<and> web_one_failure (page_url 1) = Inr listing3
   \<and> card_b \<in> set (product_pods listing3)
   \<and> listing_fields card_b = Inr (''B'', CHR 0xA3 # ''53.74'', ''One'', 1, ''b_2/index.html'')
   \<and> and_then (web_one_failure (book_url_of ''b_2/index.html'')) detail_fields
        = Inl RequestException
   \<and> (\<exists>e'. fst (scrape_books web_one_failure 1) = Inl e')
   \<and> fst (scrape_books web_ok 1) = Inr records3
   \<and> list_all2 (\<lambda>b r. fst (scrape_book web_ok b) = Inr r)
        (concat (map (listed web_ok) [1..1])) records3"
proof -
  have a: "(1 :: int) \<in> {1..1}" "web_one_failure (page_url 1) = Inr listing3"
    "card_b \<in> set (product_pods listing3)"
    by (simp_all add: web_one_failure_def web_page1 listing3_def)
  note l = listing_card_b web_one_failure_b
  from detail_failure_aborts_crawl [of 1 1 web_one_failure listing3 card_b "''B''"
      "CHR 0xA3 # ''53.74''" "''One''" 1 "''b_2/index.html''" RequestException] a l
  have "\<exists>e'. fst (scrape_books web_one_failure 1) = Inl e'"
    by blast
  moreover have r: "fst (scrape_books web_ok 1) = Inr records3"
    by (simp add: run_ok)
  moreover from detail_failure_aborts_crawl [of _ 1 web_ok _ _ _ _ _ _ _ _ records3] r
  have "list_all2 (\<lambda>b r. fst (scrape_book web_ok b) = Inr r)
        (concat (map (listed web_ok) [1..1])) records3"
    by blast
  ultimately show ?thesis
    using a l by blast
qed

text \<open>A page of three cards where the request of the second detail page raises: the run
  raises that exception, and there are no three rows.\<close>

theorem detail_failure_aborts_crawl_counterexample:
  "length (product_pods listing3) = 3
   \<and> web_one_failure (page_url 1) = Inr listing3
   \<and> web_one_failure url_a = Inr (detail_page (described '' about A '') ''a1'')
   \<and> web_one_failure url_b = Inl RequestException
   \<and> web_one_failure url_c = Inr (detail_page (described ''about C'') ''c3'')
   \<and> fst (scrape_books web_one_failure 1) = Inl RequestException"
proof -
  have "web_one_failure (page_url 1) = Inr listing3"
    by (simp add: web_one_failure_def web_page1)
  moreover have "web_one_failure url_a = Inr (detail_page (described '' about A '') ''a1'')"
    "web_one_failure url_b = Inl RequestException"
    "web_one_failure url_c = Inr (detail_page (described ''about C'') ''c3'')"
    by (simp_all add: web_one_failure_def web_with_def url_page1_def url_a_def url_b_def
        url_c_def)
  ultimately show ?thesis
    by (simp add: run_one_failure listing3_def)
qed

section \<open>A detail page without description tag\<close>

lemma detail_fields_no_meta:
  "meta_description page = None \<Longrightarrow> detail_fields page = Inl TypeError"
  by (simp add: detail_fields_def subscript_def and_then_def)

lemma missing_meta_fails_book:
  assumes "listing_fields b = Inr (t, pr, ra, av, href)" "get (book_url_of href) = Inr page"
    "meta_description page = None"
  shows "scrape_book get b = (Inl TypeError, [Request Detail (book_url_of href)])"
proof -
  from assms(2,3) have "and_then (get (book_url_of href)) detail_fields = Inl TypeError"
    by (simp add: and_then_def detail_fields_no_meta)
  with assms(1) show ?thesis
    using scrape_book_detail_failure [of b t pr ra av href get TypeError] by simp
qed

lemma missing_meta_ends_run:
  assumes "p \<in> {1..n}" "get (page_url p) = Inr s" "b \<in> set (product_pods s)"
    "listing_fields b = Inr (t, pr, ra, av, href)" "get (book_url_of href) = Inr page"
    "meta_description page = None"
  shows "\<exists>e. fst (scrape_books get n) = Inl e"
proof -
  from assms(5,6) have "and_then (get (book_url_of href)) detail_fields = Inl TypeError"
    by (simp add: and_then_def detail_fields_no_meta)
  with assms(1-4) show ?thesis
    using detail_failure_ends_run [of p n get s b t pr ra av href TypeError] by blast
qed

lemma scraped_description_present:
  assumes "fst (scrape_books get n) = Inr recs" "r \<in> set recs"
  shows "description r \<noteq> None"
  using scrape_books_rows_complete [OF assms] by (simp add: all_present_def)

text \<open>
  C7, as amended. For every detail page whose description tag is missing, the lookup of
  the tag's content raises \<open>TypeError\<close>: the item fails after its detail request, and so
  does the whole crawl, which returns no row. The sentinel \<open>No description\<close> is what
  \<open>clean_data\<close> writes for a description that is null in the frame it is given; a row that
  \<open>scrape_books\<close> returns never has a null description.
\<close>

theorem missing_description_tag:
  "(listing_fields b = Inr (t, pr, ra, av, href) \<and> get (book_url_of href) = Inr page
      \<and> meta_description page = None
     \<longrightarrow> scrape_book get b = (Inl TypeError, [Request Detail (book_url_of href)]))
   \<and> (p \<in> {1..n} \<and> get (page_url p) = Inr s \<and> b \<in> set (product_pods s)
      \<and> listing_fields b = Inr (t, pr, ra, av, href) \<and> get (book_url_of href) = Inr page
      \<and> meta_description page = None
     \<longrightarrow> (\<exists>e. fst (scrape_books get n) = Inl e))
   \<and> description (assign_fillna r)
       = Some (case description r of None \<Rightarrow> ''No description'' | Some d \<Rightarrow> d)
   \<and> (fst (scrape_books get n) = Inr recs \<longrightarrow> (\<forall>r \<in> set recs. description r \<noteq> None))"
proof -
  have "description (assign_fillna r)
       = Some (case description r of None \<Rightarrow> ''No description'' | Some d \<Rightarrow> d)"
    by (simp add: assign_fillna_def)
  then show ?thesis
    using missing_meta_fails_book [of b t pr ra av href get page]
      missing_meta_ends_run [of p n get s b t pr ra av href page]
      scraped_description_present [of get n recs]
    by blast
qed

lemma web_no_meta_b: "web_no_meta (book_url_of ''b_2/index.html'') = Inr (detail_page None ''b2'')"
  by (simp add: url_b_book) (simp add: web_no_meta_def web_with_def url_page1_def url_a_def
      url_b_def)

theorem missing_description_tag_witness:
  "(1 :: int) \<in> {1..1} \<and> web_no_meta (page_url 1) = Inr listing3
   \<and> card_b \<in> set (product_pods listing3)
   \<and> listing_fields card_b = Inr (''B'', CHR 0xA3 # ''53.74'', ''One'', 1, ''b_2/index.html'')
   \<and> web_no_meta (book_url_of ''b_2/index.html'') = Inr (detail_page None ''b2'')
   \<and> meta_description (detail_page None ''b2'') = None
   \<and> scrape_book web_no_meta card_b
        = (Inl TypeError, [Request Detail (book_url_of ''b_2/index.html'')])
   \<and> (\<exists>e. fst (scrape_books web_no_meta 1) = Inl e)
   \<and> fst (scrape_books web_ok 1) = Inr records3
   \<and> description (hd records3) \<noteq> None"
proof -
  have a: "(1 :: int) \<in> {1..1}" "web_no_meta (page_url 1) = Inr listing3"
    "card_b \<in> set (product_pods listing3)"
    "meta_description (detail_page None ''b2'') = None"
    by (simp_all add: web_no_meta_def web_page1 listing3_def detail_page_def)
  note l = listing_card_b web_no_meta_b
  note t = missing_description_tag [of card_b "''B''" "CHR 0xA3 # ''53.74''" "''One''" 1
      "''b_2/index.html''" web_no_meta "detail_page None ''b2''" 1 1 listing3]
  from t a l have "scrape_book web_no_meta card_b
        = (Inl TypeError, [Request Detail (book_url_of ''b_2/index.html'')])"
    by blast
  moreover from t a l have "\<exists>e. fst (scrape_books web_no_meta 1) = Inl e"
    by blast
  moreover have r: "fst (scrape_books web_ok 1) = Inr records3"
    by (simp add: run_ok)
  moreover have "hd records3 \<in> set records3"
    by (simp add: records3_def)
  with r missing_description_tag [of _ _ _ _ _ _ web_ok _ _ 1 _ _ records3]
  have "description (hd records3) \<noteq> None"
    by blast
  ultimately show ?thesis
    using a l by blast
qed

text \<open>A page of three cards where the second detail page has no description tag.\<close>

theorem missing_description_tag_counterexample:
  "web_no_meta url_b = Inr (detail_page None ''b2'')
   \<and> meta_description (detail_page None ''b2'') = None
   \<and> fst (scrape_books web_no_meta 1) = Inl TypeError"
proof -
  have "web_no_meta url_b = Inr (detail_page None ''b2'')"
    by (simp add: web_no_meta_def web_with_def url_page1_def url_a_def url_b_def)
  then show ?thesis
    by (simp add: run_no_meta detail_page_def)
qed

section \<open>Rows of a completed crawl\<close>

text \<open>
  C10. Every row that \<open>scrape_books\<close> builds has all eleven cells non-null, and its
  availability is a non-negative integer from the start. So after a crawl that returns,
  the drop of rows without price, title or rating drops nothing, and the fills of
  description and review count change nothing.
\<close>

theorem scraped_rows_complete:
  "(fst (scrape_book get b) = Inr r \<longrightarrow> all_present r \<and> 0 \<le> availability r)
   \<and> (fst (scrape_books get n) = Inr recs \<longrightarrow>
        (\<forall>r \<in> set recs. all_present r \<and> 0 \<le> availability r)
        \<and> dropna recs = recs \<and> map assign_fillna (dropna recs) = recs)"
proof -
  have "dropna recs = recs \<and> map assign_fillna (dropna recs) = recs"
    if "fst (scrape_books get n) = Inr recs"
    using all_present_kept [of recs] scrape_books_rows_complete [OF that] by blast
  then show ?thesis
    using scrape_book_row_complete [of get b r] scrape_books_rows_complete [of get n recs]
    by blast
qed

theorem scraped_rows_complete_witness:
  "fst (scrape_books web_ok 1) = Inr records3
   \<and> all_present (hd records3) \<and> 0 \<le> availability (hd records3)
   \<and> dropna records3 = records3 \<and> map assign_fillna (dropna records3) = records3
   \<and> length records3 = 3"
proof -
  have r: "fst (scrape_books web_ok 1) = Inr records3"
    by (simp add: run_ok)
  have h: "hd records3 \<in> set records3" "length records3 = 3"
    by (simp_all add: records3_def)
  from scraped_rows_complete [of web_ok _ _ 1 records3] r h show ?thesis
    by blast
qed

section \<open>Pacing and retries\<close>

lemma item_paced_page_books_then:
  "fst (scrape_page_books get books acc) = Inr recs \<Longrightarrow>
   item_paced (snd (scrape_page_books get books acc) @ tr) = item_paced tr"
proof (induction books arbitrary: acc)
  case Nil
  then show ?case by simp
next
  case (Cons b books)
  show ?case
  proof (rule scrape_book_cases [of b get])
    fix e assume "listing_fields b = Inl e" "scrape_book get b = (Inl e, [])"
    with Cons.prems show ?thesis by (simp add: scrape_page_books_fail)
  next
    fix t p r a href e
    assume "scrape_book get b = (Inl e, [Request Detail (book_url_of href)])"
    with Cons.prems show ?thesis by (simp add: scrape_page_books_fail)
  next
    fix t p r a href page d rec
    assume s: "scrape_book get b = (Inr rec, [Request Detail (book_url_of href), Sleep 500])"
    note step = scrape_page_books_row [OF s, of books acc]
    from Cons.prems have "fst (scrape_page_books get books (acc @ [rec])) = Inr recs"
      by (simp only: step fst_conv)
    from Cons.IH [OF this] show ?thesis
      by (simp only: step snd_conv) simp
  qed
qed

lemma item_paced_page_books: "item_paced (snd (scrape_page_books get books acc))"
proof (induction books arbitrary: acc)
  case Nil
  then show ?case by simp
next
  case (Cons b books)
  show ?case
  proof (rule scrape_book_cases [of b get])
    fix e assume "listing_fields b = Inl e" "scrape_book get b = (Inl e, [])"
    then show ?thesis by (simp add: scrape_page_books_fail)
  next
    fix t p r a href e
    assume "scrape_book get b = (Inl e, [Request Detail (book_url_of href)])"
    then show ?thesis by (simp add: scrape_page_books_fail)
  next
    fix t p r a href page d rec
    assume s: "scrape_book get b = (Inr rec, [Request Detail (book_url_of href), Sleep 500])"
    note step = scrape_page_books_row [OF s, of books acc]
    from Cons.IH [of "acc @ [rec]"] show ?thesis
      by (simp only: step snd_conv) simp
  qed
qed

lemma item_paced_pages: "item_paced (snd (scrape_pages get pages acc))"
proof (induction pages arbitrary: acc)
  case Nil
  then show ?case by simp
next
  case (Cons p pages)
  show ?case
  proof (cases "get (page_url p)")
    case (Inl e)
    then show ?thesis by (simp add: scrape_pages_unserved)
  next
    case (Inr s)
    obtain res evs where b: "scrape_page_books get (product_pods s) acc = (res, evs)"
      by (cases "scrape_page_books get (product_pods s) acc") auto
    show ?thesis
    proof (cases res)
      case (Inl e)
      from item_paced_page_books [of get "product_pods s" acc] b have "item_paced evs" by simp
      then show ?thesis
        by (simp only: scrape_pages_books_fail [of get p s acc e evs pages, OF Inr b [unfolded Inl]]
            snd_conv) simp
    next
      case acc': (Inr acc')
      from item_paced_page_books_then [of get "product_pods s" acc acc'] b acc'
      have "item_paced (evs @ tr) = item_paced tr" for tr by simp
      with Cons.IH [of acc'] show ?thesis
        by (simp only: scrape_pages_next [of get p s acc acc' evs pages, OF Inr b [unfolded acc']]
            snd_conv) simp
    qed
  qed
qed

text \<open>What the shape says of the places of a trace.\<close>

lemma item_paced_sleep:
  "item_paced tr \<Longrightarrow> i < length tr \<Longrightarrow> tr ! i = Sleep ms \<Longrightarrow>
   ms = 500 \<and> 0 < i \<and> (\<exists>u. tr ! (i - 1) = Request Detail u)"
proof (induction tr arbitrary: i rule: item_paced.induct)
  case 1
  then show ?case by simp
next
  case (2 ms' tr)
  then show ?case by simp
next
  case (3 u tr)
  show ?case
  proof (cases i)
    case 0
    with 3 show ?thesis by simp
  next
    case (Suc j)
    with 3 have "ms = 500 \<and> 0 < j \<and> (\<exists>u. tr ! (j - 1) = Request Detail u)" by simp
    with Suc show ?thesis by (cases j) auto
  qed
next
  case (4 u)
  then show ?case by simp
next
  case (5 u ms' tr)
  show ?case
  proof (cases i)
    case 0
    with 5 show ?thesis by simp
  next
    case i: (Suc j)
    show ?thesis
    proof (cases j)
      case 0
      with i 5 show ?thesis by simp
    next
      case (Suc k)
      with i 5 have "ms = 500 \<and> 0 < k \<and> (\<exists>u. tr ! (k - 1) = Request Detail u)" by simp
      with i Suc show ?thesis by (cases k) auto
    qed
  qed
next
  case (6 u k v tr)
  then show ?case by simp
qed

lemma item_paced_after_request:
  "item_paced tr \<Longrightarrow> Suc i < length tr \<Longrightarrow>
   (\<forall>u. tr ! i = Request Detail u \<longrightarrow> tr ! Suc i = Sleep 500)
   \<and> (\<forall>u. tr ! i = Request Listing u \<longrightarrow> (\<exists>k v. tr ! Suc i = Request k v))"
proof (induction tr arbitrary: i rule: item_paced.induct)
  case 1
  then show ?case by simp
next
  case (2 ms' tr)
  then show ?case by simp
next
  case (3 u tr)
  show ?case
  proof (cases i)
    case 0
    with 3 show ?thesis
      by (cases tr rule: item_paced.cases) auto
  next
    case (Suc j)
    with 3 show ?thesis by simp
  qed
next
  case (4 u)
  then show ?case by simp
next
  case (5 u ms' tr)
  show ?case
  proof (cases i)
    case 0
    with 5 show ?thesis by simp
  next
    case i: (Suc j)
    show ?thesis
    proof (cases j)
      case 0
      with i 5 show ?thesis
        by (cases tr rule: item_paced.cases) auto
    next
      case (Suc k)
      with i 5 show ?thesis by simp
    qed
  qed
next
  case (6 u k v tr)
  then show ?case by simp
qed

text \<open>Two requests in a row: no sleep between them, so no positive delay is kept.\<close>

lemma adjacent_requests_no_delay:
  "Suc i < length tr \<Longrightarrow> tr ! i = Request k u \<Longrightarrow> tr ! Suc i = Request k' v \<Longrightarrow> 0 < d \<Longrightarrow>
   \<not> delay_kept d slept tr"
proof (induction tr arbitrary: i slept)
  case Nil
  then show ?case by simp
next
  case (Cons e tr)
  show ?case
  proof (cases i)
    case 0
    with Cons.prems obtain tr' where "e = Request k u" "tr = Request k' v # tr'"
      by (cases tr) auto
    with Cons.prems(4) show ?thesis by simp
  next
    case (Suc j)
    with Cons.prems have "\<not> delay_kept d slept' tr" for slept'
      using Cons.IH [of j slept'] by simp
    then show ?thesis by (cases e) simp_all
  qed
qed

text \<open>
  C9, as amended. Within a crawl run the only delay is the fixed sleep of half a second
  that ends the body of the item loop. In the trace of every run each sleep lasts 500 ms
  and directly follows a detail request, and each detail request that is not the last
  event is directly followed by that sleep. What follows a listing request is the next
  request, with no sleep between them, so the minimum delay is not kept there. No request
  is retried: every request before the last event of the trace was served, a URL whose
  request raises is requested at most once, and when it is requested the run ends with
  that exception.
\<close>

theorem request_pacing:
  "paced (snd (scrape_books get n))
   \<and> list_all plain (snd (scrape_books get n))
   \<and> list_all (served get) (butlast (snd (scrape_books get n)))
   \<and> (get url = Inl e \<longrightarrow>
        attempts url (snd (scrape_books get n)) \<le> 1
        \<and> (attempts url (snd (scrape_books get n)) = 1 \<longrightarrow> fst (scrape_books get n) = Inl e))
   \<and> item_paced (snd (scrape_books get n))
   \<and> (i < length (snd (scrape_books get n)) \<and> snd (scrape_books get n) ! i = Sleep ms \<longrightarrow>
        ms = 500 \<and> 0 < i \<and> (\<exists>v. snd (scrape_books get n) ! (i - 1) = Request Detail v))
   \<and> (Suc i < length (snd (scrape_books get n))
        \<and> snd (scrape_books get n) ! i = Request Detail v \<longrightarrow>
        snd (scrape_books get n) ! Suc i = Sleep 500)
   \<and> (Suc i < length (snd (scrape_books get n))
        \<and> snd (scrape_books get n) ! i = Request Listing v \<longrightarrow>
        (\<exists>k w. snd (scrape_books get n) ! Suc i = Request k w)
        \<and> \<not> min_delay_kept 500 (snd (scrape_books get n)))"
proof -
  let ?tr = "snd (scrape_books get n)"
  have s: "settled get (fst (scrape_books get n)) ?tr"
    unfolding scrape_books_def by (rule settled_pages)
  have p: "paced ?tr"
    unfolding scrape_books_def by (rule paced_pages)
  have q: "list_all plain ?tr"
    unfolding scrape_books_def by (rule plain_pages)
  have ip: "item_paced ?tr"
    unfolding scrape_books_def by (rule item_paced_pages)
  have sl: "ms = 500 \<and> 0 < i \<and> (\<exists>v. ?tr ! (i - 1) = Request Detail v)"
    if "i < length ?tr" "?tr ! i = Sleep ms"
    using item_paced_sleep [OF ip that] .
  have de: "?tr ! Suc i = Sleep 500" if "Suc i < length ?tr" "?tr ! i = Request Detail v"
    using item_paced_after_request [OF ip that(1)] that(2) by blast
  have li: "(\<exists>k w. ?tr ! Suc i = Request k w) \<and> \<not> min_delay_kept 500 ?tr"
    if a: "Suc i < length ?tr" "?tr ! i = Request Listing v"
  proof -
    from item_paced_after_request [OF ip a(1)] a(2) obtain k w where
      r: "?tr ! Suc i = Request k w" by blast
    from adjacent_requests_no_delay [OF a r, of 500 None] have "\<not> min_delay_kept 500 ?tr"
      by (simp add: min_delay_kept_def)
    with r show ?thesis by blast
  qed
  from p q ip settled_butlast [OF s] attempts_once [OF s, of url e] sl de li
  show ?thesis
    by (intro conjI impI) (blast+)
qed

theorem request_pacing_witness:
  "web_one_failure url_b = Inl RequestException
   \<and> attempts url_b (snd (scrape_books web_one_failure 1)) = 1
   \<and> fst (scrape_books web_one_failure 1) = Inl RequestException
   \<and> paced (snd (scrape_books web_one_failure 1))
   \<and> Suc 0 < length (snd (scrape_books web_ok 1))
   \<and> snd (scrape_books web_ok 1) ! 0 = Request Listing url_page1
   \<and> (\<exists>k w. snd (scrape_books web_ok 1) ! Suc 0 = Request k w)
   \<and> \<not> min_delay_kept 500 (snd (scrape_books web_ok 1))
   \<and> Suc 1 < length (snd (scrape_books web_ok 1))
   \<and> snd (scrape_books web_ok 1) ! 1 = Request Detail url_a
   \<and> snd (scrape_books web_ok 1) ! Suc 1 = Sleep 500
   \<and> snd (scrape_books web_ok 1) ! 2 = Sleep 500
   \<and> (\<exists>v. snd (scrape_books web_ok 1) ! (2 - 1) = Request Detail v)"
proof -
  have a: "web_one_failure url_b = Inl RequestException"
    by (simp add: web_one_failure_def web_with_def url_page1_def url_a_def url_b_def)
  have b: "attempts url_b (snd (scrape_books web_one_failure 1)) = 1"
    by (simp add: run_one_failure attempts_def url_page1_def url_a_def url_b_def)
  from request_pacing [of web_one_failure 1 url_b RequestException] a b
  have c: "fst (scrape_books web_one_failure 1) = Inl RequestException"
    "paced (snd (scrape_books web_one_failure 1))"
    by blast+
  have l: "Suc 0 < length (snd (scrape_books web_ok 1))"
    "snd (scrape_books web_ok 1) ! 0 = Request Listing url_page1"
    "Suc 1 < length (snd (scrape_books web_ok 1))"
    "snd (scrape_books web_ok 1) ! 1 = Request Detail url_a"
    "2 < length (snd (scrape_books web_ok 1))"
    "snd (scrape_books web_ok 1) ! 2 = Sleep 500"
    by (simp_all add: run_ok)
  from request_pacing [of web_ok 1 _ _ 0 _ url_page1] l(1,2)
  have d: "\<exists>k w. snd (scrape_books web_ok 1) ! Suc 0 = Request k w"
    "\<not> min_delay_kept 500 (snd (scrape_books web_ok 1))"
    by blast+
  from request_pacing [of web_ok 1 _ _ 1 _ url_a] l(3,4)
  have f: "snd (scrape_books web_ok 1) ! Suc 1 = Sleep 500"
    by blast
  from request_pacing [of web_ok 1 _ _ 2 500] l(5,6)
  have g: "\<exists>v. snd (scrape_books web_ok 1) ! (2 - 1) = Request Detail v"
    by blast
  show ?thesis
    by (intro conjI) (fact a b c l d f g)+
qed

text \<open>
  In the run over the fixture page the first detail request follows the listing request
  with no sleep between them, and the request that raises is made once.
\<close>

theorem request_pacing_counterexample:
  "snd (scrape_books web_ok 1) =
     [Request Listing url_page1, Request Detail url_a, Sleep 500,
      Request Detail url_b, Sleep 500, Request Detail url_c, Sleep 500]
   \<and> \<not> min_delay_kept 500 (snd (scrape_books web_ok 1))
   \<and> web_one_failure url_b = Inl RequestException
   \<and> attempts url_b (snd (scrape_books web_one_failure 1)) = 1
   \<and> fst (scrape_books web_one_failure 1) = Inl RequestException"
proof -
  have "web_one_failure url_b = Inl RequestException"
    by (simp add: web_one_failure_def web_with_def url_page1_def url_a_def url_b_def)
  moreover have "attempts url_b (snd (scrape_books web_one_failure 1)) = 1"
    by (simp add: run_one_failure attempts_def url_page1_def url_a_def url_b_def)
  ultimately show ?thesis
    by (simp add: run_ok run_one_failure min_delay_kept_def)
qed

end
